theory Spec2Isabelle
  imports Main "HOL-Library.AList"
begin

section \<open>Values, raised exceptions and the machine state\<close>

text \<open>
  The orchestrator of \<^verbatim>\<open>script.py\<close> never looks inside the objects its collaborators
  return: it either passes them on or unpacks them with \<^verbatim>\<open>a, b = f(...)\<close>. A value is
  therefore an opaque object, or an iterable together with the values it yields.
\<close>

datatype 'o pyval = Opaque 'o | Iterable "'o pyval list"

text \<open>
  What a Python \<^verbatim>\<open>raise\<close> carries, as far as \<^verbatim>\<open>except Exception as e\<close> and the
  formatting of \<^verbatim>\<open>e\<close> can tell: an instance of \<^verbatim>\<open>Exception\<close> with its \<^verbatim>\<open>str(e)\<close>;
  an instance of \<^verbatim>\<open>Exception\<close> whose \<^verbatim>\<open>__str__\<close> itself raises; or one of the
  system-exiting exceptions that derive from \<^verbatim>\<open>BaseException\<close> only
  (\<^verbatim>\<open>SystemExit\<close>, \<^verbatim>\<open>KeyboardInterrupt\<close>, \<^verbatim>\<open>GeneratorExit\<close>).
\<close>

datatype py_raise = Exception string | Unprintable py_raise | SystemExiting string

text \<open>\<^verbatim>\<open>isinstance(e, Exception)\<close>\<close>

fun isinstance_Exception :: "py_raise \<Rightarrow> bool" where
  "isinstance_Exception (SystemExiting msg) = False"
| "isinstance_Exception (Exception msg) = True"
| "isinstance_Exception (Unprintable e) = True"

text \<open>\<^verbatim>\<open>str(e)\<close>, which is what \<^verbatim>\<open>f"{e}"\<close> evaluates: the text, or what \<^verbatim>\<open>__str__\<close> raises.\<close>

fun py_str :: "py_raise \<Rightarrow> py_raise + string" where
  "py_str (Exception msg) = Inr msg"
| "py_str (SystemExiting msg) = Inr msg"
| "py_str (Unprintable e) = Inl e"

text \<open>
  The twelve functions imported from \<^verbatim>\<open>model.neb\<close>, each with the arguments the
  orchestrator passes (keyword arguments in the order of the call).
\<close>

datatype 'o call =
    Opt_slab
  | Init_molecule string
  | Opt_molecule "'o pyval"
  | Site_screening "'o pyval" "'o pyval" string bool string
  | Validate_screening_files string
  | Clean_incomplete_files string bool
  | Recover_screening_files string
  | Load_screening_results string
  | Best_site_results "'o pyval"
  | Select_neb_endpoints_translation "'o pyval" "'o pyval"
  | Select_neb_endpoints_rotation "'o pyval" "'o pyval" int
  | Prepare_neb_calculation "'o pyval" "'o pyval" int string string

type_synonym 'o event = "'o call \<times> (py_raise + 'o pyval)"

datatype 'o node = Dir | File "'o pyval"

text \<open>
  The world the collaborators act on: the file system (paths as written, in creation
  order); the lines printed so far; the condition of the standard output, which is the
  error every write to it raises (a closed file, a broken pipe) if there is one, and
  the characters its encoding cannot encode (ASCII is in every encoding); and whatever
  else the collaborators can observe or change.
\<close>

record ('o, 'e) world =
  fs :: "(string \<times> 'o node) list"
  stdout :: "string list"
  stdout_fault :: "string option"
  unencodable :: "char list"
  other :: 'e

text \<open>
  The state of a run: the world, and the record of every collaborator call made so far
  with its outcome. The collaborators see the world only.
\<close>

record ('o, 'e) state =
  ext :: "('o, 'e) world"
  calls :: "'o event list"

type_synonym ('o, 'e) handler =
  "'o call \<Rightarrow> ('o, 'e) world \<Rightarrow> (py_raise + 'o pyval) \<times> ('o, 'e) world"

type_synonym ('a, 'o, 'e) prog = "('o, 'e) state \<Rightarrow> (py_raise + 'a) \<times> ('o, 'e) state"

definition return_prog :: "'a \<Rightarrow> 's \<Rightarrow> ('x + 'a) \<times> 's" where
  "return_prog x = (\<lambda>s. (Inr x, s))"

definition raise_prog :: "'x \<Rightarrow> 's \<Rightarrow> ('x + 'a) \<times> 's" where
  "raise_prog e = (\<lambda>s. (Inl e, s))"

definition bind_prog ::
  "('s \<Rightarrow> ('x + 'a) \<times> 's) \<Rightarrow> ('a \<Rightarrow> 's \<Rightarrow> ('x + 'b) \<times> 's) \<Rightarrow> 's \<Rightarrow> ('x + 'b) \<times> 's" where
  "bind_prog m f = (\<lambda>s. case m s of (Inl e, s') \<Rightarrow> (Inl e, s') | (Inr x, s') \<Rightarrow> f x s')"

text \<open>\<^verbatim>\<open>try: m except Exception as e: handler(e)\<close>\<close>

definition try_except_Exception ::
  "('a, 'o, 'e) prog \<Rightarrow> (py_raise \<Rightarrow> ('a, 'o, 'e) prog) \<Rightarrow> ('a, 'o, 'e) prog" where
  "try_except_Exception m handler =
     (\<lambda>s. case m s of
            (Inl e, s') \<Rightarrow> if isinstance_Exception e then handler e s' else (Inl e, s')
          | (Inr x, s') \<Rightarrow> (Inr x, s'))"

text \<open>A call of a collaborator: it runs on the world, and the call is recorded.\<close>

definition perform :: "('o, 'e) handler \<Rightarrow> 'o call \<Rightarrow> ('o pyval, 'o, 'e) prog" where
  "perform h c = (\<lambda>s. case h c (ext s) of
                        (r, w') \<Rightarrow> (r, \<lparr>ext = w', calls = calls s @ [(c, r)]\<rparr>))"

text \<open>
  \<^verbatim>\<open>print(line)\<close>: an \<^verbatim>\<open>OSError\<close> or \<^verbatim>\<open>ValueError\<close> when the standard output cannot be
  written, a \<^verbatim>\<open>UnicodeEncodeError\<close> when the line has a character its encoding lacks;
  otherwise the line is printed. A failing call prints nothing.
\<close>

definition print :: "string \<Rightarrow> (unit, 'o, 'e) prog" where
  "print line =
     (\<lambda>s. case stdout_fault (ext s) of
            Some msg \<Rightarrow> (Inl (Exception msg), s)
          | None \<Rightarrow>
              if \<exists>c \<in> set line. 128 \<le> (of_char c :: nat) \<and> c \<in> set (unencodable (ext s))
              then (Inl (Exception ''codec cannot encode character''), s)
              else (Inr (), s\<lparr>ext := (ext s)\<lparr>stdout := stdout (ext s) @ [line]\<rparr>\<rparr>))"

text \<open>\<^verbatim>\<open>str(n)\<close> for an integer, as an f-string renders it.\<close>

definition digit_char :: "nat \<Rightarrow> char" where
  "digit_char d = ''0123456789'' ! (d mod 10)"

fun str_nat :: "nat \<Rightarrow> string" where
  "str_nat n = (if 10 \<le> n then str_nat (n div 10) else []) @ [digit_char n]"

declare str_nat.simps [simp del]

definition str_int :: "int \<Rightarrow> string" where
  "str_int i = (if 0 \<le> i then str_nat (nat i) else CHR ''-'' # str_nat (nat (- i)))"

text \<open>\<^verbatim>\<open>a, b = v\<close>: a \<^verbatim>\<open>ValueError\<close> or \<^verbatim>\<open>TypeError\<close> unless \<open>v\<close> yields exactly two values.\<close>

fun unpack2 :: "'o pyval \<Rightarrow> ('o pyval \<times> 'o pyval, 'o, 'e) prog" where
  "unpack2 (Iterable [a, b]) = return_prog (a, b)"
| "unpack2 (Iterable xs) =
     raise_prog (Exception
       (if length xs < 2
        then ''not enough values to unpack (expected 2, got '' @ str_nat (length xs) @ '')''
        else ''too many values to unpack (expected 2)''))"
| "unpack2 (Opaque x) = raise_prog (Exception ''cannot unpack non-iterable object'')"

text \<open>The calls whose result the executor unpacks into two values.\<close>

fun unpacked :: "'o call \<Rightarrow> bool" where
  "unpacked (Best_site_results sr) = True"
| "unpacked (Select_neb_endpoints_translation best sr) = True"
| "unpacked (Select_neb_endpoints_rotation best sr angle) = True"
| "unpacked (Prepare_neb_calculation ep1 ep2 n_images barrier_type workdir) = True"
| "unpacked c = False"

section \<open>The file-system calls of the standard library\<close>

text \<open>\<^verbatim>\<open>os.path.join(a, b)\<close> on a POSIX host.\<close>

definition os_path_join :: "string \<Rightarrow> string \<Rightarrow> string" where
  "os_path_join a b =
     (if a = [] \<or> (b \<noteq> [] \<and> hd b = CHR ''/'') then b
      else if last a = CHR ''/'' then a @ b
      else a @ ''/'' @ b)"

text \<open>The proper ancestors of a path: its prefixes that end just before a separator.\<close>

fun ancestors_from :: "string \<Rightarrow> string \<Rightarrow> string list" where
  "ancestors_from acc [] = []"
| "ancestors_from acc (c # cs) =
     (if c = CHR ''/'' \<and> acc \<noteq> [] then [acc] else []) @ ancestors_from (acc @ [c]) cs"

definition ancestors :: "string \<Rightarrow> string list" where
  "ancestors p = ancestors_from [] p"

definition is_file :: "(string \<times> 'o node) list \<Rightarrow> string \<Rightarrow> bool" where
  "is_file t p = (case map_of t p of Some (File _) \<Rightarrow> True | _ \<Rightarrow> False)"

definition is_dir :: "(string \<times> 'o node) list \<Rightarrow> string \<Rightarrow> bool" where
  "is_dir t p = (map_of t p = Some Dir)"

text \<open>A directory at \<open>p\<close> that can be reached: no regular file stands at an ancestor.\<close>

definition directory_at :: "(string \<times> 'o node) list \<Rightarrow> string \<Rightarrow> bool" where
  "directory_at t p = (is_dir t p \<and> (\<forall>q \<in> set (ancestors p). \<not> is_file t q))"

text \<open>
  \<^verbatim>\<open>os.makedirs(name, exist_ok=exist_ok)\<close>: creates \<open>name\<close> and its missing ancestors.
  A regular file at \<open>name\<close> or at an ancestor is an error whatever \<open>exist_ok\<close> says;
  a directory already at \<open>name\<close> is an error unless \<open>exist_ok\<close>. Paths are compared
  as written; permissions and links are not modelled. A failing call changes nothing.
\<close>

definition os_makedirs :: "string \<Rightarrow> bool \<Rightarrow> (unit, 'o, 'e) prog" where
  "os_makedirs name exist_ok =
     (\<lambda>s. let t = fs (ext s) in
        if name = [] then (Inl (Exception ''[Errno 2] No such file or directory''), s)
        else if \<exists>p \<in> set (ancestors name). is_file t p
          then (Inl (Exception ''[Errno 20] Not a directory''), s)
        else if is_file t name then (Inl (Exception ''[Errno 17] File exists''), s)
        else if is_dir t name
          then (if exist_ok then (Inr (), s) else (Inl (Exception ''[Errno 17] File exists''), s))
        else (Inr (),
              s\<lparr>ext := (ext s)\<lparr>fs := t @ map (\<lambda>p. (p, Dir))
                         (filter (\<lambda>p. map_of t p = None) (ancestors name @ [name]))\<rparr>\<rparr>))"

section \<open>The per-item executor\<close>

text \<open>Lines 21--29: the three workspace paths and their creation.\<close>

definition workspace_setup :: "string \<Rightarrow> string \<Rightarrow> (string \<times> string \<times> string, 'o, 'e) prog" where
  "workspace_setup ads_name base_dir =
     (let ads_dir = os_path_join base_dir ads_name;
          screening_dir = os_path_join ads_dir ''Screening_Data'';
          neb_trans_dir = os_path_join ads_dir ''NEB_Translation'';
          neb_rot_dir = os_path_join ads_dir ''NEB_Rotation''
      in bind_prog (os_makedirs screening_dir True) (\<lambda>_.
         bind_prog (os_makedirs neb_trans_dir True) (\<lambda>_.
         bind_prog (os_makedirs neb_rot_dir True) (\<lambda>_.
         return_prog (screening_dir, neb_trans_dir, neb_rot_dir)))))"

text \<open>
  A task result is the dictionary \<^verbatim>\<open>{"translation": ..., "rotation": ...}\<close> (its items in
  insertion order), or \<^verbatim>\<open>None\<close>.
\<close>

type_synonym 'o task_result = "(string \<times> 'o pyval) list option"

text \<open>Lines 21--79: the body of the \<^verbatim>\<open>try\<close> block.\<close>

definition pipeline_body ::
  "('o, 'e) handler \<Rightarrow> string \<Rightarrow> string \<Rightarrow> (string \<times> 'o task_result, 'o, 'e) prog" where
  "pipeline_body h ads_name base_dir =
     bind_prog (workspace_setup ads_name base_dir) (\<lambda>(screening_dir, neb_trans_dir, neb_rot_dir).
     bind_prog (print (CHR 0x0A # ''=== Starting adsorbate: '' @ ads_name @ '' ==='')) (\<lambda>_.
     bind_prog (perform h Opt_slab) (\<lambda>slab.
     bind_prog (perform h (Init_molecule ads_name)) (\<lambda>mol.
     bind_prog (perform h (Opt_molecule mol)) (\<lambda>ads.
     bind_prog (perform h (Site_screening slab ads ''site'' True screening_dir)) (\<lambda>screening_results.
     bind_prog (perform h (Validate_screening_files screening_dir)) (\<lambda>_.
     bind_prog (perform h (Clean_incomplete_files screening_dir False)) (\<lambda>_.
     bind_prog (perform h (Recover_screening_files screening_dir)) (\<lambda>_.
     bind_prog (perform h (Load_screening_results
                  (os_path_join screening_dir ''screening_results.pkl''))) (\<lambda>screening_results.
     bind_prog (bind_prog (perform h (Best_site_results screening_results)) unpack2)
       (\<lambda>(df_sorted, best_site).
     bind_prog (bind_prog (perform h
                  (Select_neb_endpoints_translation best_site screening_results)) unpack2)
       (\<lambda>(ep1_t, ep2_t).
     bind_prog (bind_prog (perform h
                  (Prepare_neb_calculation ep1_t ep2_t 10 ''translation'' neb_trans_dir)) unpack2)
       (\<lambda>(images_t, result_t).
     bind_prog (bind_prog (perform h
                  (Select_neb_endpoints_rotation best_site screening_results 120)) unpack2)
       (\<lambda>(ep1_r, ep2_r).
     bind_prog (bind_prog (perform h
                  (Prepare_neb_calculation ep1_r ep2_r 10 ''rotation'' neb_rot_dir)) unpack2)
       (\<lambda>(images_r, result_r).
     return_prog (ads_name,
                  Some [(''translation'', result_t), (''rotation'', result_r)]))))))))))))))))"

text \<open>Lines 15--83: \<^verbatim>\<open>run_adsorbate_pipeline(ads_name, base_dir)\<close>.\<close>

definition error_line :: "string \<Rightarrow> string \<Rightarrow> string" where
  "error_line ads_name msg = '' Error in adsorbate '' @ ads_name @ '': '' @ msg"

text \<open>Line 82: the handler's \<^verbatim>\<open>print\<close>, which formats \<^verbatim>\<open>e\<close> before it writes the line.\<close>

definition print_error :: "string \<Rightarrow> py_raise \<Rightarrow> (unit, 'o, 'e) prog" where
  "print_error ads_name e =
     (case py_str e of
        Inl e' \<Rightarrow> raise_prog e'
      | Inr msg \<Rightarrow> print (error_line ads_name msg))"

definition run_adsorbate_pipeline ::
  "('o, 'e) handler \<Rightarrow> string \<Rightarrow> string \<Rightarrow> (string \<times> 'o task_result, 'o, 'e) prog" where
  "run_adsorbate_pipeline h ads_name base_dir =
     try_except_Exception (pipeline_body h ads_name base_dir)
       (\<lambda>e. bind_prog (print_error ads_name e) (\<lambda>_. return_prog (ads_name, None)))"

section \<open>The batch dispatcher\<close>

text \<open>
  How a call of the dispatcher can end without a mapping: an exception raised in the
  caller, or no return at all.
\<close>

datatype fault = Raised py_raise | Never_returns

definition in_caller :: "('a, 'o, 'e) prog \<Rightarrow> ('o, 'e) state \<Rightarrow> (fault + 'a) \<times> ('o, 'e) state" where
  "in_caller m = (\<lambda>s. case m s of (Inl e, s') \<Rightarrow> (Inl (Raised e), s') | (Inr x, s') \<Rightarrow> (Inr x, s'))"

text \<open>
  \<^verbatim>\<open>mp.Pool(processes=n).map(worker, items)\<close>. Up to \<open>n\<close> items are in flight, taken
  from the front of the queue; which of them completes next is decided by the host's
  scheduler, given here as the list \<open>sched\<close> of its choices. \<open>completion_order\<close> is
  the order in which the items, paired with their positions, complete.
\<close>

lemma pick_in_range: "c mod min (max n (Suc 0)) (Suc m) < Suc m"
proof -
  have "0 < min (max n (Suc 0)) (Suc m)"
    by simp
  then have "c mod min (max n (Suc 0)) (Suc m) < min (max n (Suc 0)) (Suc m)"
    by (rule mod_less_divisor)
  then show ?thesis
    by simp
qed

function completion_order :: "nat \<Rightarrow> nat list \<Rightarrow> (nat \<times> string) list \<Rightarrow> (nat \<times> string) list" where
  "completion_order n sched [] = []"
| "completion_order n sched (p # ps) =
     (let k = (case sched of [] \<Rightarrow> 0 | c # _ \<Rightarrow> c) mod (min (max n 1) (length (p # ps)))
      in (p # ps) ! k #
         completion_order n (tl sched) (take k (p # ps) @ drop (Suc k) (p # ps)))"
  by pat_completeness auto
termination
proof (relation "measure (\<lambda>(n, sched, pending). length pending)")
  show "wf (measure (\<lambda>(n, sched, pending). length pending))"
    by simp
next
  fix n :: nat and sched :: "nat list" and p :: "nat \<times> string" and ps :: "(nat \<times> string) list"
    and k
  assume k: "k = (case sched of [] \<Rightarrow> 0 | c # _ \<Rightarrow> c) mod min (max n 1) (length (p # ps))"
  have "k < Suc (length ps)"
    unfolding k using pick_in_range [of _ n "length ps"] by simp
  then show "((n, tl sched, take k (p # ps) @ drop (Suc k) (p # ps)), (n, sched, p # ps))
             \<in> measure (\<lambda>(n, sched, pending). length pending)"
    by simp
qed

text \<open>
  The pool runs the items in their order of completion. An item's effects on the world
  take place when it completes (the items own disjoint workspaces). A result is sent
  back to the caller pickled, and stored at the item's own position; \<open>picklable\<close> says
  which results can be pickled. When the worker function raises an \<^verbatim>\<open>Exception\<close>, or a
  result cannot be pickled, the other items still run and the first such error is
  raised in the caller at the end. When the worker function leaves by a system-exiting
  exception the worker process exits, its task is lost, and the call never returns.
\<close>

definition first_error :: "py_raise option \<Rightarrow> py_raise \<Rightarrow> py_raise option" where
  "first_error err e = (case err of None \<Rightarrow> Some e | Some e0 \<Rightarrow> Some e0)"

fun pool_collect ::
  "(string \<Rightarrow> ('r, 'o, 'e) prog) \<Rightarrow> ('r \<Rightarrow> bool) \<Rightarrow> (nat \<times> string) list \<Rightarrow> 'r option list
     \<Rightarrow> py_raise option \<Rightarrow> ('o, 'e) state \<Rightarrow> (fault + 'r option list) \<times> ('o, 'e) state" where
  "pool_collect worker picklable [] slots err s =
     (case err of None \<Rightarrow> (Inr slots, s) | Some e \<Rightarrow> (Inl (Raised e), s))"
| "pool_collect worker picklable ((i, x) # rest) slots err s =
     (case worker x s of
        (Inl e, s') \<Rightarrow>
          if isinstance_Exception e
          then pool_collect worker picklable rest slots (first_error err e) s'
          else (Inl Never_returns, s')
      | (Inr r, s') \<Rightarrow>
          if picklable r
          then pool_collect worker picklable rest (slots[i := Some r]) err s'
          else pool_collect worker picklable rest slots
                 (first_error err (Exception ''Error sending result'')) s')"

definition pool_map ::
  "int \<Rightarrow> nat list \<Rightarrow> (string \<Rightarrow> ('r, 'o, 'e) prog) \<Rightarrow> ('r \<Rightarrow> bool) \<Rightarrow> string list
     \<Rightarrow> ('o, 'e) state \<Rightarrow> (fault + 'r option list) \<times> ('o, 'e) state" where
  "pool_map processes sched worker picklable items =
     (if processes < 1
      then raise_prog (Raised (Exception ''Number of processes must be at least 1''))
      else pool_collect worker picklable
             (completion_order (nat processes) sched (enumerate 0 items))
             (replicate (length items) None) None)"

text \<open>
  \<^verbatim>\<open>{ads: res for ads, res in results_list}\<close>: a dictionary keeps a key at the position
  of its first insertion and the value of its last.
\<close>

definition dict_of_pairs :: "(string \<times> 'r) list \<Rightarrow> (string \<times> 'r) list" where
  "dict_of_pairs results_list = foldl (\<lambda>d (ads, res). AList.update ads res d) [] results_list"

definition aggregate :: "(string \<times> 'r) option list \<Rightarrow> ((string \<times> 'r) list, 'o, 'e) prog" where
  "aggregate slots =
     (case those slots of
        None \<Rightarrow> raise_prog (Exception ''cannot unpack non-iterable NoneType object'')
      | Some results_list \<Rightarrow> return_prog (dict_of_pairs results_list))"

definition running_line :: "nat \<Rightarrow> int \<Rightarrow> string" where
  "running_line n n_cores =
     CHR 0x0A # ''>>> Running '' @ str_nat n @ '' adsorbates on '' @ str_int n_cores @ '' cores <<<''"

text \<open>
  Lines 89--109: \<^verbatim>\<open>run_adsorbate_list_parallel(adsorbate_list, base_dir, n_cores)\<close>. The
  worker is whatever the module-level name \<^verbatim>\<open>run_adsorbate_pipeline\<close> is bound to
  (the parameter \<open>pipeline\<close>); \<open>cpu_count\<close> is the host's \<^verbatim>\<open>mp.cpu_count()\<close>.
\<close>

definition run_adsorbate_list_parallel ::
  "(string \<Rightarrow> string \<Rightarrow> (string \<times> 'r, 'o, 'e) prog) \<Rightarrow> (string \<times> 'r \<Rightarrow> bool) \<Rightarrow> nat \<Rightarrow> nat list
     \<Rightarrow> string list \<Rightarrow> string \<Rightarrow> int option
     \<Rightarrow> ('o, 'e) state \<Rightarrow> (fault + (string \<times> 'r) list) \<times> ('o, 'e) state" where
  "run_adsorbate_list_parallel pipeline picklable cpu_count sched adsorbate_list base_dir n_cores =
     bind_prog (in_caller (os_makedirs base_dir True)) (\<lambda>_.
     let n_cores = (case n_cores of None \<Rightarrow> int cpu_count | Some n \<Rightarrow> n) in
     bind_prog (in_caller (print (running_line (length adsorbate_list) n_cores))) (\<lambda>_.
     let worker = (\<lambda>ads_name. pipeline ads_name base_dir) in
     bind_prog (pool_map n_cores sched worker picklable adsorbate_list) (\<lambda>slots.
     bind_prog (in_caller (aggregate slots)) (\<lambda>results.
     return_prog results))))"

text \<open>
  A serial execution, for comparison: the items of \<open>order\<close> run one after the other,
  whatever each returns or raises. It gives, for each, its position, the state its run
  started in and the outcome of the run, and the state after the last.
\<close>

fun run_in_order ::
  "(string \<Rightarrow> ('r, 'o, 'e) prog) \<Rightarrow> (nat \<times> string) list \<Rightarrow> ('o, 'e) state
     \<Rightarrow> (nat \<times> ('o, 'e) state \<times> (py_raise + 'r)) list \<times> ('o, 'e) state" where
  "run_in_order worker [] s = ([], s)"
| "run_in_order worker ((i, x) # rest) s =
     (case worker x s of
        (out, s') \<Rightarrow>
          (case run_in_order worker rest s' of
             (log, s'') \<Rightarrow> ((i, s, out) # log, s'')))"

section \<open>Stand-ins for the collaborators, for evaluation\<close>

definition write_file :: "string \<Rightarrow> 'o pyval \<Rightarrow> ('o, 'e) world \<Rightarrow> ('o, 'e) world" where
  "write_file p v w = w\<lparr>fs := AList.update p (File v) (fs w)\<rparr>"

text \<open>
  A deterministic stand-in for \<^verbatim>\<open>model.neb\<close>. Screening finds three sites, returns
  them and persists them; destructive cleaning drops the last (incomplete) entry of
  the persisted file; loading reads the file back. The species \<^verbatim>\<open>X2\<close> is unknown.
\<close>

fun mock_neb :: "(string, unit) handler" where
  "mock_neb Opt_slab w = (Inr (Opaque ''slab''), w)"
| "mock_neb (Init_molecule a) w =
     (if a = ''X2'' then (Inl (Exception ''unknown species''), w)
      else (Inr (Opaque a), w))"
| "mock_neb (Opt_molecule m) w = (Inr m, w)"
| "mock_neb (Site_screening slab ads center_xy use_all_sites workdir) w =
     (let found = Iterable [Opaque ''top'', Opaque ''bridge'', Opaque ''hollow'']
      in (Inr found, write_file (os_path_join workdir ''screening_results.pkl'') found w))"
| "mock_neb (Validate_screening_files workdir) w = (Inr (Opaque ''report''), w)"
| "mock_neb (Clean_incomplete_files workdir dry_run) w =
     (let p = os_path_join workdir ''screening_results.pkl''
      in case map_of (fs w) p of
           Some (File (Iterable xs)) \<Rightarrow>
             (Inr (Opaque ''None''), if dry_run then w else write_file p (Iterable (butlast xs)) w)
         | _ \<Rightarrow> (Inr (Opaque ''None''), w))"
| "mock_neb (Recover_screening_files workdir) w = (Inr (Opaque ''None''), w)"
| "mock_neb (Load_screening_results p) w =
     (case map_of (fs w) p of
        Some (File v) \<Rightarrow> (Inr v, w)
      | _ \<Rightarrow> (Inl (Exception ''[Errno 2] No such file or directory''), w))"
| "mock_neb (Best_site_results sr) w =
     (case sr of
        Iterable (x # xs) \<Rightarrow> (Inr (Iterable [sr, x]), w)
      | _ \<Rightarrow> (Inl (Exception ''no sites''), w))"
| "mock_neb (Select_neb_endpoints_translation best sr) w =
     (Inr (Iterable [best, Opaque ''shifted'']), w)"
| "mock_neb (Select_neb_endpoints_rotation best sr angle) w =
     (Inr (Iterable [best, Opaque ''rotated'']), w)"
| "mock_neb (Prepare_neb_calculation ep1 ep2 n_images barrier_type workdir) w =
     (Inr (Iterable [Opaque ''images'', Opaque (''barrier '' @ barrier_type)]), w)"

text \<open>The same, with a path search that fails for the rotation barrier.\<close>

definition mock_neb_rotation_fails :: "(string, unit) handler" where
  "mock_neb_rotation_fails c w =
     (case c of
        Prepare_neb_calculation ep1 ep2 n_images barrier_type workdir \<Rightarrow>
          (if barrier_type = ''rotation'' then (Inl (Exception ''NEB did not converge''), w)
           else mock_neb c w)
      | _ \<Rightarrow> mock_neb c w)"


text \<open>The same, with a screening that refuses a workspace already holding results.\<close>

definition mock_neb_exclusive :: "(string, unit) handler" where
  "mock_neb_exclusive c w =
     (case c of
        Site_screening slab ads center_xy use_all_sites workdir \<Rightarrow>
          (if map_of (fs w) (os_path_join workdir ''screening_results.pkl'') \<noteq> None
           then (Inl (Exception ''workspace in use''), w)
           else mock_neb c w)
      | _ \<Rightarrow> mock_neb c w)"

text \<open>A stand-in for the executor itself whose result depends on the item's name only.\<close>

definition mock_pipeline :: "string \<Rightarrow> string \<Rightarrow> (string \<times> string task_result, string, unit) prog" where
  "mock_pipeline ads_name base_dir =
     return_prog (ads_name,
       if ads_name = ''X2'' then None
       else Some [(''translation'', Opaque ''okT''), (''rotation'', Opaque ''okR'')])"

definition empty_state :: "(string, unit) state" where
  "empty_state =
     \<lparr>ext = \<lparr>fs = [], stdout = [], stdout_fault = None, unencodable = [], other = ()\<rparr>,
      calls = []\<rparr>"


text \<open>A pool whose workers can pickle every result.\<close>

definition all_picklable :: "string \<times> string task_result \<Rightarrow> bool" where
  "all_picklable r = True"

section \<open>Basic facts about the program combinators\<close>

lemma bind_progE:
  assumes "bind_prog m f s = (r, s')"
  obtains e where "m s = (Inl e, s')" "r = Inl e"
        | x s1 where "m s = (Inr x, s1)" "f x s1 = (r, s')"
  using assms by (auto simp: bind_prog_def split: prod.splits sum.splits)

lemma perform_eq:
  "perform h c s = (r, s') \<longleftrightarrow>
     (\<exists>w'. h c (ext s) = (r, w') \<and> s' = \<lparr>ext = w', calls = calls s @ [(c, r)]\<rparr>)"
  by (auto simp: perform_def split: prod.splits)

lemma unpack2_Inr:
  "unpack2 v s = (Inr p, s') \<longleftrightarrow> v = Iterable [fst p, snd p] \<and> s' = s"
  by (cases v rule: unpack2.cases; cases p) (auto simp: return_prog_def raise_prog_def)

lemma unpack2_Inl:
  "unpack2 v s = (Inl e, s') \<Longrightarrow>
     s' = s \<and> (\<forall>a b. v \<noteq> Iterable [a, b]) \<and> (\<exists>msg. e = Exception msg)"
  by (cases v rule: unpack2.cases) (auto simp: return_prog_def raise_prog_def)

lemma print_calls:
  "print l s = (r, s') \<Longrightarrow>
     calls s' = calls s \<and> (\<forall>e. r = Inl e \<longrightarrow> s' = s \<and> (\<exists>msg. e = Exception msg))"
  by (auto simp: print_def split: option.splits if_splits)


lemma print_error_calls:
  "print_error a e s = (r, s') \<Longrightarrow> calls s' = calls s \<and> (\<forall>e'. r = Inl e' \<longrightarrow> s' = s)"
  by (cases "py_str e") (auto simp: print_error_def raise_prog_def dest!: print_calls)

lemma os_makedirs_calls:
  "os_makedirs p ok s = (r, s') \<Longrightarrow>
     calls s' = calls s \<and> (\<forall>e. r = Inl e \<longrightarrow> (\<exists>msg. e = Exception msg))"
  by (auto simp: os_makedirs_def Let_def split: if_splits)

lemma workspace_setup_calls:
  "workspace_setup a b s = (r, s') \<Longrightarrow>
     calls s' = calls s \<and>
     (\<forall>d. r = Inr d \<longrightarrow>
        d = (os_path_join (os_path_join b a) ''Screening_Data'',
             os_path_join (os_path_join b a) ''NEB_Translation'',
             os_path_join (os_path_join b a) ''NEB_Rotation'')) \<and>
     (\<forall>e. r = Inl e \<longrightarrow> (\<exists>msg. e = Exception msg))"
  apply (unfold workspace_setup_def Let_def)
  apply (erule bind_progE; (clarsimp simp: return_prog_def dest!: os_makedirs_calls)?)+
  done

lemma try_except_ExceptionE:
  assumes "try_except_Exception m handler s = (r, s')"
  obtains v where "m s = (Inr v, s')" "r = Inr v"
        | e where "m s = (Inl e, s')" "\<not> isinstance_Exception e" "r = Inl e"
        | e s1 where "m s = (Inl e, s1)" "isinstance_Exception e" "handler e s1 = (r, s')"
  using assms
  by (auto simp: try_except_Exception_def split: prod.splits sum.splits if_splits)

lemma run_adsorbate_pipeline_cases:
  assumes "run_adsorbate_pipeline h a b s = (r, s')"
  obtains (returned) v where "pipeline_body h a b s = (Inr v, s')" "r = Inr v"
        | (exits) e where "pipeline_body h a b s = (Inl e, s')" "\<not> isinstance_Exception e"
                          "r = Inl e"
        | (caught) e s1 where "pipeline_body h a b s = (Inl e, s1)" "isinstance_Exception e"
                              "print_error a e s1 = (Inr (), s')" "r = Inr (a, None)"
        | (handler_raises) e s1 e' where "pipeline_body h a b s = (Inl e, s1)"
                              "isinstance_Exception e"
                              "print_error a e s1 = (Inl e', s')" "r = Inl e'"
  using assms unfolding run_adsorbate_pipeline_def
  by (erule_tac try_except_ExceptionE)
     (auto simp: bind_prog_def return_prog_def split: prod.splits sum.splits)

lemma run_adsorbate_pipeline_calls:
  assumes "run_adsorbate_pipeline h a b s = (r, s')"
  shows "\<exists>r0 s0. pipeline_body h a b s = (r0, s0) \<and> calls s' = calls s0 \<and>
           (\<forall>res. r = Inr (a, Some res) \<longrightarrow> r0 = r)"
  using assms
  by (cases rule: run_adsorbate_pipeline_cases) (auto dest!: print_error_calls)

section \<open>Failure isolation of the executor\<close>

text \<open>
  In what follows \<open>h\<close> stands for the collaborators, \<open>a\<close> for the item's name and
  \<open>b\<close> for the base directory; \<open>evs\<close> are the collaborator calls that a run adds
  to the record, in order, each with its outcome.
\<close>

lemma body_faults:
  assumes "pipeline_body h a b s = (r, s')"
  shows "\<exists>evs. calls s' = calls s @ evs \<and>
    (\<forall>v. r = Inr v \<longrightarrow> fst v = a \<and> snd v \<noteq> None) \<and>
    (\<forall>e. r = Inl e \<longrightarrow> \<not> isinstance_Exception e \<longrightarrow> evs \<noteq> [] \<and> snd (last evs) = Inl e) \<and>
    (\<forall>c e. (c, Inl e) \<in> set evs \<longrightarrow> r = Inl e) \<and>
    (\<forall>c v. (c, Inr v) \<in> set evs \<longrightarrow> unpacked c \<longrightarrow> (\<forall>x y. v \<noteq> Iterable [x, y]) \<longrightarrow>
       (\<exists>msg. r = Inl (Exception msg)))"
  apply (insert assms, unfold pipeline_body_def)
  apply (erule bind_progE; (clarsimp simp: perform_eq unpack2_Inr return_prog_def
           dest!: workspace_setup_calls print_calls unpack2_Inl)?)+
  done








section \<open>What the executor asks of its collaborators\<close>

lemma run_known_species:
  "run_adsorbate_pipeline mock_neb ''CO'' ''Adsorbates'' empty_state =
   (Inr (''CO'', Some [(''translation'', Opaque ''barrier translation''),
                      (''rotation'', Opaque ''barrier rotation'')]),
    \<lparr>ext = \<lparr>fs = [(''Adsorbates'', Dir), (''Adsorbates/CO'', Dir),
                   (''Adsorbates/CO/Screening_Data'', Dir),
                   (''Adsorbates/CO/NEB_Translation'', Dir),
                   (''Adsorbates/CO/NEB_Rotation'', Dir),
                   (''Adsorbates/CO/Screening_Data/screening_results.pkl'',
                    File (Iterable [Opaque ''top'', Opaque ''bridge'']))],
            stdout = [CHR 0x0A # ''=== Starting adsorbate: CO ===''], stdout_fault = None, unencodable = [], other = ()\<rparr>,
     calls =
       [(Opt_slab, Inr (Opaque ''slab'')),
        (Init_molecule ''CO'', Inr (Opaque ''CO'')),
        (Opt_molecule (Opaque ''CO''), Inr (Opaque ''CO'')),
        (Site_screening (Opaque ''slab'') (Opaque ''CO'') ''site'' True
           ''Adsorbates/CO/Screening_Data'',
         Inr (Iterable [Opaque ''top'', Opaque ''bridge'', Opaque ''hollow''])),
        (Validate_screening_files ''Adsorbates/CO/Screening_Data'', Inr (Opaque ''report'')),
        (Clean_incomplete_files ''Adsorbates/CO/Screening_Data'' False, Inr (Opaque ''None'')),
        (Recover_screening_files ''Adsorbates/CO/Screening_Data'', Inr (Opaque ''None'')),
        (Load_screening_results ''Adsorbates/CO/Screening_Data/screening_results.pkl'',
         Inr (Iterable [Opaque ''top'', Opaque ''bridge''])),
        (Best_site_results (Iterable [Opaque ''top'', Opaque ''bridge'']),
         Inr (Iterable [Iterable [Opaque ''top'', Opaque ''bridge''], Opaque ''top''])),
        (Select_neb_endpoints_translation (Opaque ''top'')
           (Iterable [Opaque ''top'', Opaque ''bridge'']),
         Inr (Iterable [Opaque ''top'', Opaque ''shifted''])),
        (Prepare_neb_calculation (Opaque ''top'') (Opaque ''shifted'') 10 ''translation''
           ''Adsorbates/CO/NEB_Translation'',
         Inr (Iterable [Opaque ''images'', Opaque ''barrier translation''])),
        (Select_neb_endpoints_rotation (Opaque ''top'')
           (Iterable [Opaque ''top'', Opaque ''bridge'']) 120,
         Inr (Iterable [Opaque ''top'', Opaque ''rotated''])),
        (Prepare_neb_calculation (Opaque ''top'') (Opaque ''rotated'') 10 ''rotation''
           ''Adsorbates/CO/NEB_Rotation'',
         Inr (Iterable [Opaque ''images'', Opaque ''barrier rotation'']))]\<rparr>)"
  by code_simp

lemma run_rotation_fails:
  "run_adsorbate_pipeline mock_neb_rotation_fails ''CO'' ''Adsorbates'' empty_state =
   (Inr (''CO'', None),
    \<lparr>ext = \<lparr>fs = [(''Adsorbates'', Dir), (''Adsorbates/CO'', Dir),
                   (''Adsorbates/CO/Screening_Data'', Dir),
                   (''Adsorbates/CO/NEB_Translation'', Dir),
                   (''Adsorbates/CO/NEB_Rotation'', Dir),
                   (''Adsorbates/CO/Screening_Data/screening_results.pkl'',
                    File (Iterable [Opaque ''top'', Opaque ''bridge'']))],
            stdout = [CHR 0x0A # ''=== Starting adsorbate: CO ==='',
                      '' Error in adsorbate CO: NEB did not converge''], stdout_fault = None, unencodable = [], other = ()\<rparr>,
     calls =
       [(Opt_slab, Inr (Opaque ''slab'')),
        (Init_molecule ''CO'', Inr (Opaque ''CO'')),
        (Opt_molecule (Opaque ''CO''), Inr (Opaque ''CO'')),
        (Site_screening (Opaque ''slab'') (Opaque ''CO'') ''site'' True
           ''Adsorbates/CO/Screening_Data'',
         Inr (Iterable [Opaque ''top'', Opaque ''bridge'', Opaque ''hollow''])),
        (Validate_screening_files ''Adsorbates/CO/Screening_Data'', Inr (Opaque ''report'')),
        (Clean_incomplete_files ''Adsorbates/CO/Screening_Data'' False, Inr (Opaque ''None'')),
        (Recover_screening_files ''Adsorbates/CO/Screening_Data'', Inr (Opaque ''None'')),
        (Load_screening_results ''Adsorbates/CO/Screening_Data/screening_results.pkl'',
         Inr (Iterable [Opaque ''top'', Opaque ''bridge''])),
        (Best_site_results (Iterable [Opaque ''top'', Opaque ''bridge'']),
         Inr (Iterable [Iterable [Opaque ''top'', Opaque ''bridge''], Opaque ''top''])),
        (Select_neb_endpoints_translation (Opaque ''top'')
           (Iterable [Opaque ''top'', Opaque ''bridge'']),
         Inr (Iterable [Opaque ''top'', Opaque ''shifted''])),
        (Prepare_neb_calculation (Opaque ''top'') (Opaque ''shifted'') 10 ''translation''
           ''Adsorbates/CO/NEB_Translation'',
         Inr (Iterable [Opaque ''images'', Opaque ''barrier translation''])),
        (Select_neb_endpoints_rotation (Opaque ''top'')
           (Iterable [Opaque ''top'', Opaque ''bridge'']) 120,
         Inr (Iterable [Opaque ''top'', Opaque ''rotated''])),
        (Prepare_neb_calculation (Opaque ''top'') (Opaque ''rotated'') 10 ''rotation''
           ''Adsorbates/CO/NEB_Rotation'',
         Inl (Exception ''NEB did not converge''))]\<rparr>)"
  by code_simp

subsection \<open>The task result\<close>

lemma body_result_shape:
  assumes "pipeline_body h a b s = (r, s')"
  shows "\<exists>evs. calls s' = calls s @ evs \<and>
    (\<forall>v. r = Inr v \<longrightarrow>
       (\<exists>e1t e2t it rt e1r e2r ir rr.
          v = (a, Some [(''translation'', rt), (''rotation'', rr)]) \<and>
          (Prepare_neb_calculation e1t e2t 10 ''translation''
             (os_path_join (os_path_join b a) ''NEB_Translation''), Inr (Iterable [it, rt]))
            \<in> set evs \<and>
          (Prepare_neb_calculation e1r e2r 10 ''rotation''
             (os_path_join (os_path_join b a) ''NEB_Rotation''), Inr (Iterable [ir, rr]))
            \<in> set evs)) \<and>
    (\<forall>e1 e2 n wd e. (Prepare_neb_calculation e1 e2 n ''rotation'' wd, Inl e) \<in> set evs \<longrightarrow>
       r = Inl e \<and>
       (\<exists>e1t e2t it rt.
          (Prepare_neb_calculation e1t e2t 10 ''translation''
             (os_path_join (os_path_join b a) ''NEB_Translation''), Inr (Iterable [it, rt]))
            \<in> set evs))"
  apply (insert assms, unfold pipeline_body_def)
  apply (erule bind_progE; (clarsimp simp: perform_eq unpack2_Inr return_prog_def
           dest!: workspace_setup_calls print_calls unpack2_Inl)?)+
  done

text \<open>
  Claim C3. A result returned by the executor is \<^verbatim>\<open>None\<close>, or the dictionary with
  exactly the keys \<^verbatim>\<open>translation\<close> and \<^verbatim>\<open>rotation\<close>, whose values are the results of
  the two path searches of this run. When the rotation path search raises an
  \<^verbatim>\<open>Exception\<close>, the translation path search had returned, and still the executor
  returns \<open>(ads_name, None)\<close>, unless the handler's print of the error line raises
  and the executor returns nothing at all: no dictionary with the translation entry
  alone.
\<close>

theorem task_result_all_or_nothing:
  assumes "run_adsorbate_pipeline h a b s = (r, s')"
  shows "\<exists>evs. calls s' = calls s @ evs \<and>
    (\<forall>n res. r = Inr (n, res) \<longrightarrow>
       res = None \<or>
       (\<exists>e1t e2t it rt e1r e2r ir rr.
          res = Some [(''translation'', rt), (''rotation'', rr)] \<and>
          (Prepare_neb_calculation e1t e2t 10 ''translation''
             (os_path_join (os_path_join b a) ''NEB_Translation''), Inr (Iterable [it, rt]))
            \<in> set evs \<and>
          (Prepare_neb_calculation e1r e2r 10 ''rotation''
             (os_path_join (os_path_join b a) ''NEB_Rotation''), Inr (Iterable [ir, rr]))
            \<in> set evs)) \<and>
    (\<forall>e1 e2 n wd msg.
       (Prepare_neb_calculation e1 e2 n ''rotation'' wd, Inl (Exception msg)) \<in> set evs \<longrightarrow>
       (r = Inr (a, None) \<or>
        (\<exists>e. r = Inl e \<and>
              print ('' Error in adsorbate '' @ a @ '': '' @ msg) s' = (Inl e, s'))) \<and>
       (\<exists>e1t e2t it rt.
          (Prepare_neb_calculation e1t e2t 10 ''translation''
             (os_path_join (os_path_join b a) ''NEB_Translation''), Inr (Iterable [it, rt]))
            \<in> set evs))"
  using assms
proof (cases rule: run_adsorbate_pipeline_cases)
  case (returned v)
  from body_result_shape [OF returned(1)] returned(2) show ?thesis
    by (cases v) fastforce
next
  case (exits e)
  from body_result_shape [OF exits(1)] exits(2) exits(3) show ?thesis
    by fastforce
next
  case (caught e s1)
  from print_error_calls [OF caught(3)] have same: "calls s' = calls s1"
    by simp
  from body_result_shape [OF caught(1)] caught(4) show ?thesis
    unfolding same by fastforce
next
  case (handler_raises e s1 e')
  from print_error_calls [OF handler_raises(3)] have same: "s' = s1"
    by simp
  from body_result_shape [OF handler_raises(1)] obtain evs where evs: "calls s1 = calls s @ evs"
    and rot: "\<forall>e1 e2 n wd e0.
       (Prepare_neb_calculation e1 e2 n ''rotation'' wd, Inl e0) \<in> set evs \<longrightarrow>
       Inl e = (Inl e0 :: py_raise + string \<times> 'a task_result) \<and>
       (\<exists>e1t e2t it rt.
          (Prepare_neb_calculation e1t e2t 10 ''translation''
             (os_path_join (os_path_join b a) ''NEB_Translation''), Inr (Iterable [it, rt]))
            \<in> set evs)"
    by blast
  have "\<exists>e. r = Inl e \<and> print ('' Error in adsorbate '' @ a @ '': '' @ msg) s' = (Inl e, s')"
    if "(Prepare_neb_calculation e1 e2 n ''rotation'' wd, Inl (Exception msg)) \<in> set evs"
    for e1 e2 n wd msg
  proof -
    from rot that have "e = Exception msg"
      by blast
    with handler_raises(3) same have "print (error_line a msg) s' = (Inl e', s')"
      by (simp add: print_error_def)
    with handler_raises(4) show ?thesis
      by (simp add: error_line_def)
  qed
  with rot evs same handler_raises(4) show ?thesis
    by (intro exI [of _ evs]) fastforce
qed

theorem task_result_all_or_nothing_witness:
  "fst (run_adsorbate_pipeline mock_neb_rotation_fails ''CO'' ''Adsorbates'' empty_state) = Inr (''CO'', None) \<and>
   (Prepare_neb_calculation (Opaque ''top'') (Opaque ''shifted'') 10 ''translation''
      ''Adsorbates/CO/NEB_Translation'',
    Inr (Iterable [Opaque ''images'', Opaque ''barrier translation'']))
     \<in> set (calls (snd (run_adsorbate_pipeline mock_neb_rotation_fails ''CO'' ''Adsorbates'' empty_state))) \<and>
   (Prepare_neb_calculation (Opaque ''top'') (Opaque ''rotated'') 10 ''rotation''
      ''Adsorbates/CO/NEB_Rotation'',
    Inl (Exception ''NEB did not converge''))
     \<in> set (calls (snd (run_adsorbate_pipeline mock_neb_rotation_fails ''CO'' ''Adsorbates'' empty_state)))"
  using task_result_all_or_nothing [OF run_rotation_fails]
  by (simp (no_asm) add: run_rotation_fails)

subsection \<open>The screening results that later stages read\<close>

lemma body_reload:
  assumes "pipeline_body h a b s = (r, s')"
  shows "\<exists>evs. calls s' = calls s @ evs \<and>
    (\<forall>sr out.
       (Best_site_results sr, out) \<in> set evs \<or>
       (\<exists>best. (Select_neb_endpoints_translation best sr, out) \<in> set evs) \<or>
       (\<exists>best angle. (Select_neb_endpoints_rotation best sr angle, out) \<in> set evs) \<longrightarrow>
       (\<exists>slab mol ads raw v1 v2 v3. take 8 evs =
        [(Opt_slab, Inr slab),
         (Init_molecule a, Inr mol),
         (Opt_molecule mol, Inr ads),
         (Site_screening slab ads ''site'' True
            (os_path_join (os_path_join b a) ''Screening_Data''), Inr raw),
         (Validate_screening_files (os_path_join (os_path_join b a) ''Screening_Data''), Inr v1),
         (Clean_incomplete_files (os_path_join (os_path_join b a) ''Screening_Data'') False, Inr v2),
         (Recover_screening_files (os_path_join (os_path_join b a) ''Screening_Data''), Inr v3),
         (Load_screening_results
            (os_path_join (os_path_join (os_path_join b a) ''Screening_Data'')
               ''screening_results.pkl''), Inr sr)]))"
  apply (insert assms, unfold pipeline_body_def)
  apply (erule bind_progE; (clarsimp simp: perform_eq unpack2_Inr return_prog_def
           dest!: workspace_setup_calls print_calls unpack2_Inl)?)+
  done

text \<open>
  Claim C4. Whenever best-site selection or either endpoint selection is called with
  screening results \<open>sr\<close>, the first eight calls of the run were, in this order:
  the three structure preparations, the site screening (returning some \<open>raw\<close>),
  validation, cleaning, recovery, and the load of \<^verbatim>\<open>screening_results.pkl\<close> in the
  screening directory, and \<open>sr\<close> is what that load returned. The object \<open>raw\<close>
  returned by the screening stage is passed to no later call.
\<close>

theorem reload_freshness:
  assumes "run_adsorbate_pipeline h a b s = (r, s')"
  shows "\<exists>evs. calls s' = calls s @ evs \<and>
    (\<forall>sr out.
       (Best_site_results sr, out) \<in> set evs \<or>
       (\<exists>best. (Select_neb_endpoints_translation best sr, out) \<in> set evs) \<or>
       (\<exists>best angle. (Select_neb_endpoints_rotation best sr angle, out) \<in> set evs) \<longrightarrow>
       (\<exists>slab mol ads raw v1 v2 v3. take 8 evs =
        [(Opt_slab, Inr slab),
         (Init_molecule a, Inr mol),
         (Opt_molecule mol, Inr ads),
         (Site_screening slab ads ''site'' True
            (os_path_join (os_path_join b a) ''Screening_Data''), Inr raw),
         (Validate_screening_files (os_path_join (os_path_join b a) ''Screening_Data''), Inr v1),
         (Clean_incomplete_files (os_path_join (os_path_join b a) ''Screening_Data'') False, Inr v2),
         (Recover_screening_files (os_path_join (os_path_join b a) ''Screening_Data''), Inr v3),
         (Load_screening_results
            (os_path_join (os_path_join (os_path_join b a) ''Screening_Data'')
               ''screening_results.pkl''), Inr sr)]))"
proof -
  from run_adsorbate_pipeline_calls [OF assms] obtain r0 s0
    where body: "pipeline_body h a b s = (r0, s0)" and same: "calls s' = calls s0"
    by blast
  from body_reload [OF body] show ?thesis
    unfolding same .
qed

theorem reload_freshness_witness:
  "(Site_screening (Opaque ''slab'') (Opaque ''CO'') ''site'' True ''Adsorbates/CO/Screening_Data'',
    Inr (Iterable [Opaque ''top'', Opaque ''bridge'', Opaque ''hollow'']))
     \<in> set (calls (snd (run_adsorbate_pipeline mock_neb ''CO'' ''Adsorbates'' empty_state))) \<and>
   (Load_screening_results ''Adsorbates/CO/Screening_Data/screening_results.pkl'',
    Inr (Iterable [Opaque ''top'', Opaque ''bridge'']))
     \<in> set (calls (snd (run_adsorbate_pipeline mock_neb ''CO'' ''Adsorbates'' empty_state))) \<and>
   (Best_site_results (Iterable [Opaque ''top'', Opaque ''bridge'']),
    Inr (Iterable [Iterable [Opaque ''top'', Opaque ''bridge''], Opaque ''top'']))
     \<in> set (calls (snd (run_adsorbate_pipeline mock_neb ''CO'' ''Adsorbates'' empty_state)))"
  using reload_freshness [OF run_known_species]
  by (simp (no_asm) add: run_known_species)

subsection \<open>The path searches\<close>

lemma body_path_search:
  assumes "pipeline_body h a b s = (r, s')"
  shows "\<exists>evs. calls s' = calls s @ evs \<and>
    (\<forall>e1 e2 n kind wd out. (Prepare_neb_calculation e1 e2 n kind wd, out) \<in> set evs \<longrightarrow>
       n = 10 \<and>
       (kind = ''translation'' \<and> wd = os_path_join (os_path_join b a) ''NEB_Translation'' \<and>
          (\<exists>best sr. (Select_neb_endpoints_translation best sr, Inr (Iterable [e1, e2])) \<in> set evs)
        \<or>
        kind = ''rotation'' \<and> wd = os_path_join (os_path_join b a) ''NEB_Rotation'' \<and>
          (\<exists>best sr. (Select_neb_endpoints_rotation best sr 120, Inr (Iterable [e1, e2])) \<in> set evs))) \<and>
    (\<forall>best sr angle out. (Select_neb_endpoints_rotation best sr angle, out) \<in> set evs \<longrightarrow>
       angle = 120 \<and> (\<exists>df. (Best_site_results sr, Inr (Iterable [df, best])) \<in> set evs)) \<and>
    (\<forall>v. r = Inr v \<longrightarrow>
       (\<exists>e1t e2t o1 e1r e2r o2.
          (Prepare_neb_calculation e1t e2t 10 ''translation''
             (os_path_join (os_path_join b a) ''NEB_Translation''), o1) \<in> set evs \<and>
          (Prepare_neb_calculation e1r e2r 10 ''rotation''
             (os_path_join (os_path_join b a) ''NEB_Rotation''), o2) \<in> set evs))"
  apply (insert assms, unfold pipeline_body_def)
  apply (erule bind_progE; (auto simp: perform_eq unpack2_Inr return_prog_def
           dest!: workspace_setup_calls print_calls unpack2_Inl)?)+
  done

text \<open>
  Claim C8. Every path-search call of a run has \<^verbatim>\<open>n_images=10\<close>, and is either tagged
  \<^verbatim>\<open>translation\<close>, writes into \<^verbatim>\<open>NEB_Translation\<close> and takes the endpoints the
  translation endpoint selection returned, or is tagged \<^verbatim>\<open>rotation\<close>, writes into
  \<^verbatim>\<open>NEB_Rotation\<close> and takes the endpoints the rotation endpoint selection returned.
  Every rotation endpoint selection is called with \<^verbatim>\<open>rotation_angle_diff=120\<close> and
  the best site that best-site selection returned. A run that returns a dictionary
  made both path-search calls.
\<close>

theorem path_search_calls:
  assumes "run_adsorbate_pipeline h a b s = (r, s')"
  shows "\<exists>evs. calls s' = calls s @ evs \<and>
    (\<forall>e1 e2 n kind wd out. (Prepare_neb_calculation e1 e2 n kind wd, out) \<in> set evs \<longrightarrow>
       n = 10 \<and>
       (kind = ''translation'' \<and> wd = os_path_join (os_path_join b a) ''NEB_Translation'' \<and>
          (\<exists>best sr. (Select_neb_endpoints_translation best sr, Inr (Iterable [e1, e2])) \<in> set evs)
        \<or>
        kind = ''rotation'' \<and> wd = os_path_join (os_path_join b a) ''NEB_Rotation'' \<and>
          (\<exists>best sr. (Select_neb_endpoints_rotation best sr 120, Inr (Iterable [e1, e2])) \<in> set evs))) \<and>
    (\<forall>best sr angle out. (Select_neb_endpoints_rotation best sr angle, out) \<in> set evs \<longrightarrow>
       angle = 120 \<and> (\<exists>df. (Best_site_results sr, Inr (Iterable [df, best])) \<in> set evs)) \<and>
    (\<forall>res. r = Inr (a, Some res) \<longrightarrow>
       (\<exists>e1t e2t o1 e1r e2r o2.
          (Prepare_neb_calculation e1t e2t 10 ''translation''
             (os_path_join (os_path_join b a) ''NEB_Translation''), o1) \<in> set evs \<and>
          (Prepare_neb_calculation e1r e2r 10 ''rotation''
             (os_path_join (os_path_join b a) ''NEB_Rotation''), o2) \<in> set evs))"
proof -
  from run_adsorbate_pipeline_calls [OF assms] obtain r0 s0
    where body: "pipeline_body h a b s = (r0, s0)" and same: "calls s' = calls s0"
      and ok: "\<forall>res. r = Inr (a, Some res) \<longrightarrow> r0 = r"
    by blast
  from body_path_search [OF body] obtain evs where evs: "calls s0 = calls s @ evs"
    and p1: "\<forall>e1 e2 n kind wd out. (Prepare_neb_calculation e1 e2 n kind wd, out) \<in> set evs \<longrightarrow>
       n = 10 \<and>
       (kind = ''translation'' \<and> wd = os_path_join (os_path_join b a) ''NEB_Translation'' \<and>
          (\<exists>best sr. (Select_neb_endpoints_translation best sr, Inr (Iterable [e1, e2])) \<in> set evs)
        \<or>
        kind = ''rotation'' \<and> wd = os_path_join (os_path_join b a) ''NEB_Rotation'' \<and>
          (\<exists>best sr. (Select_neb_endpoints_rotation best sr 120, Inr (Iterable [e1, e2])) \<in> set evs))"
    and p2: "\<forall>best sr angle out. (Select_neb_endpoints_rotation best sr angle, out) \<in> set evs \<longrightarrow>
       angle = 120 \<and> (\<exists>df. (Best_site_results sr, Inr (Iterable [df, best])) \<in> set evs)"
    and p3: "\<forall>v. r0 = Inr v \<longrightarrow>
       (\<exists>e1t e2t o1 e1r e2r o2.
          (Prepare_neb_calculation e1t e2t 10 ''translation''
             (os_path_join (os_path_join b a) ''NEB_Translation''), o1) \<in> set evs \<and>
          (Prepare_neb_calculation e1r e2r 10 ''rotation''
             (os_path_join (os_path_join b a) ''NEB_Rotation''), o2) \<in> set evs)"
    by blast
  from p3 ok have p3': "\<forall>res. r = Inr (a, Some res) \<longrightarrow>
       (\<exists>e1t e2t o1 e1r e2r o2.
          (Prepare_neb_calculation e1t e2t 10 ''translation''
             (os_path_join (os_path_join b a) ''NEB_Translation''), o1) \<in> set evs \<and>
          (Prepare_neb_calculation e1r e2r 10 ''rotation''
             (os_path_join (os_path_join b a) ''NEB_Rotation''), o2) \<in> set evs)"
    by metis
  from evs same p1 p2 p3' show ?thesis
    by (intro exI [of _ evs] conjI) simp_all
qed

theorem path_search_calls_witness:
  "(Select_neb_endpoints_rotation (Opaque ''top'') (Iterable [Opaque ''top'', Opaque ''bridge'']) 120,
    Inr (Iterable [Opaque ''top'', Opaque ''rotated'']))
     \<in> set (calls (snd (run_adsorbate_pipeline mock_neb ''CO'' ''Adsorbates'' empty_state))) \<and>
   (Prepare_neb_calculation (Opaque ''top'') (Opaque ''shifted'') 10 ''translation''
      ''Adsorbates/CO/NEB_Translation'',
    Inr (Iterable [Opaque ''images'', Opaque ''barrier translation'']))
     \<in> set (calls (snd (run_adsorbate_pipeline mock_neb ''CO'' ''Adsorbates'' empty_state))) \<and>
   (Prepare_neb_calculation (Opaque ''top'') (Opaque ''rotated'') 10 ''rotation''
      ''Adsorbates/CO/NEB_Rotation'',
    Inr (Iterable [Opaque ''images'', Opaque ''barrier rotation'']))
     \<in> set (calls (snd (run_adsorbate_pipeline mock_neb ''CO'' ''Adsorbates'' empty_state)))"
  using path_search_calls [OF run_known_species]
  by (simp (no_asm) add: run_known_species)

subsection \<open>Cleaning\<close>

lemma body_cleaning:
  assumes "pipeline_body h a b s = (r, s')"
  shows "\<exists>evs. calls s' = calls s @ evs \<and>
    (\<forall>wd dry_run out. (Clean_incomplete_files wd dry_run, out) \<in> set evs \<longrightarrow>
       dry_run = False \<and> wd = os_path_join (os_path_join b a) ''Screening_Data'') \<and>
    (\<forall>wd v. (Validate_screening_files wd, Inr v) \<in> set evs \<longrightarrow>
       (\<exists>out. (Clean_incomplete_files (os_path_join (os_path_join b a) ''Screening_Data'') False, out)
                \<in> set evs))"
  apply (insert assms, unfold pipeline_body_def)
  apply (erule bind_progE; (auto simp: perform_eq unpack2_Inr return_prog_def
           dest!: workspace_setup_calls print_calls unpack2_Inl)?)+
  done

text \<open>
  Claim C9. Every call of the cleaning collaborator in a run has \<^verbatim>\<open>dry_run=False\<close> and
  the item's screening directory; and once validation has returned, cleaning is
  called. This holds for every item name, so for every item of a batch.
\<close>

theorem cleaning_is_destructive:
  assumes "run_adsorbate_pipeline h a b s = (r, s')"
  shows "\<exists>evs. calls s' = calls s @ evs \<and>
    (\<forall>wd dry_run out. (Clean_incomplete_files wd dry_run, out) \<in> set evs \<longrightarrow>
       dry_run = False \<and> wd = os_path_join (os_path_join b a) ''Screening_Data'') \<and>
    (\<forall>wd v. (Validate_screening_files wd, Inr v) \<in> set evs \<longrightarrow>
       (\<exists>out. (Clean_incomplete_files (os_path_join (os_path_join b a) ''Screening_Data'') False, out)
                \<in> set evs))"
proof -
  from run_adsorbate_pipeline_calls [OF assms] obtain r0 s0
    where body: "pipeline_body h a b s = (r0, s0)" and same: "calls s' = calls s0"
    by blast
  from body_cleaning [OF body] show ?thesis
    unfolding same .
qed

theorem cleaning_is_destructive_witness:
  "(Validate_screening_files ''Adsorbates/CO/Screening_Data'', Inr (Opaque ''report''))
     \<in> set (calls (snd (run_adsorbate_pipeline mock_neb ''CO'' ''Adsorbates'' empty_state))) \<and>
   (Clean_incomplete_files ''Adsorbates/CO/Screening_Data'' False, Inr (Opaque ''None''))
     \<in> set (calls (snd (run_adsorbate_pipeline mock_neb ''CO'' ''Adsorbates'' empty_state)))"
  using cleaning_is_destructive [OF run_known_species]
  by (simp (no_asm) add: run_known_species)

subsection \<open>Site screening\<close>

lemma body_screening:
  assumes "pipeline_body h a b s = (r, s')"
  shows "\<exists>evs. calls s' = calls s @ evs \<and>
    (\<forall>slab ads center_xy use_all_sites wd out.
       (Site_screening slab ads center_xy use_all_sites wd, out) \<in> set evs \<longrightarrow>
       use_all_sites = True \<and> center_xy = ''site'' \<and>
       wd = os_path_join (os_path_join b a) ''Screening_Data'') \<and>
    (\<forall>mol ads. (Opt_molecule mol, Inr ads) \<in> set evs \<longrightarrow>
       (\<exists>slab out. (Site_screening slab ads ''site'' True
                       (os_path_join (os_path_join b a) ''Screening_Data''), out) \<in> set evs))"
  apply (insert assms, unfold pipeline_body_def)
  apply (erule bind_progE; (auto simp: perform_eq unpack2_Inr return_prog_def
           dest!: workspace_setup_calls print_calls unpack2_Inl)?)+
  done

text \<open>
  Claim C10. Every call of the screening collaborator in a run has
  \<^verbatim>\<open>use_all_sites=True\<close>, \<^verbatim>\<open>center_xy='site'\<close> and the item's screening directory;
  and once the molecule has been optimised, screening is called with the optimised
  molecule. No run calls it with \<^verbatim>\<open>use_all_sites=False\<close>.
\<close>

theorem screening_is_exhaustive:
  assumes "run_adsorbate_pipeline h a b s = (r, s')"
  shows "\<exists>evs. calls s' = calls s @ evs \<and>
    (\<forall>slab ads center_xy use_all_sites wd out.
       (Site_screening slab ads center_xy use_all_sites wd, out) \<in> set evs \<longrightarrow>
       use_all_sites = True \<and> center_xy = ''site'' \<and>
       wd = os_path_join (os_path_join b a) ''Screening_Data'') \<and>
    (\<forall>mol ads. (Opt_molecule mol, Inr ads) \<in> set evs \<longrightarrow>
       (\<exists>slab out. (Site_screening slab ads ''site'' True
                       (os_path_join (os_path_join b a) ''Screening_Data''), out) \<in> set evs))"
proof -
  from run_adsorbate_pipeline_calls [OF assms] obtain r0 s0
    where body: "pipeline_body h a b s = (r0, s0)" and same: "calls s' = calls s0"
    by blast
  from body_screening [OF body] show ?thesis
    unfolding same .
qed

theorem screening_is_exhaustive_witness:
  "(Opt_molecule (Opaque ''CO''), Inr (Opaque ''CO''))
     \<in> set (calls (snd (run_adsorbate_pipeline mock_neb ''CO'' ''Adsorbates'' empty_state))) \<and>
   (Site_screening (Opaque ''slab'') (Opaque ''CO'') ''site'' True ''Adsorbates/CO/Screening_Data'',
    Inr (Iterable [Opaque ''top'', Opaque ''bridge'', Opaque ''hollow'']))
     \<in> set (calls (snd (run_adsorbate_pipeline mock_neb ''CO'' ''Adsorbates'' empty_state)))"
  using screening_is_exhaustive [OF run_known_species]
  by (simp (no_asm) add: run_known_species)

section \<open>Workspace setup\<close>

lemma os_path_join_nonempty: "b \<noteq> [] \<Longrightarrow> os_path_join a b \<noteq> []"
  by (simp add: os_path_join_def)

lemma is_file_append_dirs:
  "\<forall>e \<in> set ds. snd e = Dir \<Longrightarrow> is_file (t @ ds) q = is_file t q"
proof -
  assume ds: "\<forall>e \<in> set ds. snd e = Dir"
  have "map_of ds q = None \<or> map_of ds q = Some Dir"
  proof (cases "map_of ds q")
    case None
    then show ?thesis by simp
  next
    case (Some v)
    then have "(q, v) \<in> set ds"
      by (rule map_of_SomeD)
    with ds Some show ?thesis
      by auto
  qed
  then show ?thesis
    by (auto simp: is_file_def map_of_append map_add_def split: option.splits node.splits)
qed

lemma is_dir_append_dirs: "is_dir t q \<Longrightarrow> is_dir (t @ ds) q"
  by (auto simp: is_dir_def map_of_append map_add_def split: option.splits)

lemma map_of_new_dirs: "x \<in> set xs \<Longrightarrow> map_of (map (\<lambda>q. (q, Dir)) xs) x = Some Dir"
  by (induction xs) auto

lemma os_makedirs_fs:
  "os_makedirs q ok s = (r, s') \<Longrightarrow>
     \<exists>ds. fs (ext s') = fs (ext s) @ ds \<and> (\<forall>e \<in> set ds. snd e = Dir)"
  by (auto simp: os_makedirs_def Let_def split: if_splits)

lemma os_makedirs_failure: "os_makedirs p ok s = (Inl e, s') \<Longrightarrow> s' = s"
  by (auto simp: os_makedirs_def Let_def split: if_splits)

lemma os_makedirs_present:
  "p \<noteq> [] \<Longrightarrow> directory_at (fs (ext s)) p \<Longrightarrow> os_makedirs p True s = (Inr (), s)"
  by (auto simp: os_makedirs_def Let_def directory_at_def is_dir_def is_file_def)

lemma os_makedirs_creates:
  assumes "os_makedirs p True s = (Inr u, s')"
  shows "p \<noteq> [] \<and> directory_at (fs (ext s')) p"
proof -
  let ?t = "fs (ext s)"
  from assms have ne: "p \<noteq> []" and anc: "\<forall>q \<in> set (ancestors p). \<not> is_file ?t q"
    and nf: "\<not> is_file ?t p"
    by (auto simp: os_makedirs_def Let_def split: if_splits)
  show ?thesis
  proof (cases "is_dir ?t p")
    case True
    with assms ne anc nf have "s' = s"
      by (auto simp: os_makedirs_def Let_def split: if_splits)
    with True anc ne show ?thesis
      by (simp add: directory_at_def)
  next
    case False
    define ds where "ds = map (\<lambda>q. (q, Dir :: 'a node))
                             (filter (\<lambda>q. map_of ?t q = None) (ancestors p @ [p]))"
    from assms ne anc nf False have s': "fs (ext s') = ?t @ ds"
      unfolding ds_def by (auto simp: os_makedirs_def Let_def split: if_splits)
    have dirs: "\<forall>e \<in> set ds. snd e = Dir"
      unfolding ds_def by auto
    from nf False have none: "map_of ?t p = None"
      by (cases "map_of ?t p") (auto simp: is_file_def is_dir_def split: node.splits)
    then have "p \<in> set (filter (\<lambda>q. map_of ?t q = None) (ancestors p @ [p]))"
      by simp
    then have "map_of ds p = Some Dir"
      unfolding ds_def by (rule map_of_new_dirs)
    with none have "is_dir (?t @ ds) p"
      by (simp add: is_dir_def map_of_append map_add_def)
    moreover from anc have "\<forall>q \<in> set (ancestors p). \<not> is_file (?t @ ds) q"
      by (simp add: is_file_append_dirs [OF dirs])
    ultimately show ?thesis
      using ne by (simp add: directory_at_def s')
  qed
qed

lemma os_makedirs_keeps:
  assumes "os_makedirs q ok s = (r, s')" "directory_at (fs (ext s)) p"
  shows "directory_at (fs (ext s')) p"
proof -
  from os_makedirs_fs [OF assms(1)] obtain ds
    where "fs (ext s') = fs (ext s) @ ds" "\<forall>e \<in> set ds. snd e = Dir"
    by blast
  with assms(2) show ?thesis
    by (simp add: directory_at_def is_file_append_dirs is_dir_append_dirs)
qed

lemma os_makedirs_again:
  assumes "os_makedirs p True s = (r, s')"
  shows "os_makedirs p True s' = (r, s')"
proof (cases r)
  case (Inl e)
  with assms os_makedirs_failure [of p True s e s'] show ?thesis
    by simp
next
  case (Inr u)
  with assms os_makedirs_creates [of p s u s'] os_makedirs_present [of p s'] show ?thesis
    by simp
qed

text \<open>
  Claim C7. A second invocation of workspace setup for the same item and base directory,
  on the state the first one left, returns what the first returned and changes nothing:
  after a first invocation without error the second is without error too, with the
  same three paths and the same set of directories. And when the three directories
  already exist, setup returns them without error and without change.
\<close>

theorem workspace_setup_idempotent:
  "(workspace_setup a b s = (r, s') \<longrightarrow> workspace_setup a b s' = (r, s')) \<and>
   (directory_at (fs (ext s)) (os_path_join (os_path_join b a) ''Screening_Data'') \<and>
    directory_at (fs (ext s)) (os_path_join (os_path_join b a) ''NEB_Translation'') \<and>
    directory_at (fs (ext s)) (os_path_join (os_path_join b a) ''NEB_Rotation'') \<longrightarrow>
    workspace_setup a b s =
      (Inr (os_path_join (os_path_join b a) ''Screening_Data'',
            os_path_join (os_path_join b a) ''NEB_Translation'',
            os_path_join (os_path_join b a) ''NEB_Rotation''), s))"
proof (intro conjI impI)
  let ?p1 = "os_path_join (os_path_join b a) ''Screening_Data''"
  let ?p2 = "os_path_join (os_path_join b a) ''NEB_Translation''"
  let ?p3 = "os_path_join (os_path_join b a) ''NEB_Rotation''"
  have ne: "?p1 \<noteq> []" "?p2 \<noteq> []" "?p3 \<noteq> []"
    by (simp_all add: os_path_join_nonempty)
  {
    assume "directory_at (fs (ext s)) ?p1 \<and> directory_at (fs (ext s)) ?p2 \<and>
            directory_at (fs (ext s)) ?p3"
    with ne show "workspace_setup a b s = (Inr (?p1, ?p2, ?p3), s)"
      by (simp add: workspace_setup_def Let_def bind_prog_def return_prog_def os_makedirs_present)
  }
  assume run: "workspace_setup a b s = (r, s')"
  obtain r1 s1 where m1: "os_makedirs ?p1 True s = (r1, s1)"
    by (cases "os_makedirs ?p1 True s")
  show "workspace_setup a b s' = (r, s')"
  proof (cases r1)
    case (Inl e)
    with run m1 have "r = Inl e" "s' = s1"
      by (simp_all add: workspace_setup_def Let_def bind_prog_def)
    with m1 Inl os_makedirs_again [OF m1] show ?thesis
      by (simp add: workspace_setup_def Let_def bind_prog_def)
  next
    case (Inr u1)
    note r1 = this
    from m1 r1 os_makedirs_creates have d1: "directory_at (fs (ext s1)) ?p1"
      by blast
    obtain r2 s2 where m2: "os_makedirs ?p2 True s1 = (r2, s2)"
      by (cases "os_makedirs ?p2 True s1")
    from os_makedirs_keeps [OF m2 d1] have d12: "directory_at (fs (ext s2)) ?p1" .
    show ?thesis
    proof (cases r2)
      case (Inl e)
      with run m1 r1 m2 have "r = Inl e" "s' = s2"
        by (simp_all add: workspace_setup_def Let_def bind_prog_def)
      with Inl os_makedirs_again [OF m2] os_makedirs_present [OF ne(1) d12] show ?thesis
        by (simp add: workspace_setup_def Let_def bind_prog_def)
    next
      case (Inr u2)
      note r2 = this
      from m2 r2 os_makedirs_creates have d2: "directory_at (fs (ext s2)) ?p2"
        by blast
      obtain r3 s3 where m3: "os_makedirs ?p3 True s2 = (r3, s3)"
        by (cases "os_makedirs ?p3 True s2")
      from os_makedirs_keeps [OF m3 d12] have d13: "directory_at (fs (ext s3)) ?p1" .
      from os_makedirs_keeps [OF m3 d2] have d23: "directory_at (fs (ext s3)) ?p2" .
      from run m1 r1 m2 r2 m3 have s': "s' = s3"
        by (cases r3) (simp_all add: workspace_setup_def Let_def bind_prog_def return_prog_def)
      from run m1 r1 m2 r2 m3
      have r: "r = (case r3 of Inl e \<Rightarrow> Inl e | Inr _ \<Rightarrow> Inr (?p1, ?p2, ?p3))"
        by (cases r3) (simp_all add: workspace_setup_def Let_def bind_prog_def return_prog_def)
      from os_makedirs_again [OF m3] os_makedirs_present [OF ne(1) d13]
        os_makedirs_present [OF ne(2) d23] s' r show ?thesis
        by (cases r3) (simp_all add: workspace_setup_def Let_def bind_prog_def return_prog_def)
    qed
  qed
qed

lemma setup_on_empty:
  "workspace_setup ''CO'' ''Adsorbates'' empty_state =
     (Inr (''Adsorbates/CO/Screening_Data'', ''Adsorbates/CO/NEB_Translation'',
           ''Adsorbates/CO/NEB_Rotation''),
      \<lparr>ext = \<lparr>fs = [(''Adsorbates'', Dir), (''Adsorbates/CO'', Dir),
                     (''Adsorbates/CO/Screening_Data'', Dir),
                     (''Adsorbates/CO/NEB_Translation'', Dir),
                     (''Adsorbates/CO/NEB_Rotation'', Dir)],
              stdout = [], stdout_fault = None, unencodable = [],
              other = ()\<rparr>,
       calls = []\<rparr>)"
  by code_simp

theorem workspace_setup_idempotent_witness:
  "workspace_setup ''CO'' ''Adsorbates''
     \<lparr>ext = \<lparr>fs = [(''Adsorbates'', Dir), (''Adsorbates/CO'', Dir),
                    (''Adsorbates/CO/Screening_Data'', Dir),
                    (''Adsorbates/CO/NEB_Translation'', Dir),
                    (''Adsorbates/CO/NEB_Rotation'', Dir)],
             stdout = [], stdout_fault = None, unencodable = [],
              other = ()\<rparr>,
      calls = ([] :: string event list)\<rparr> =
     (Inr (''Adsorbates/CO/Screening_Data'', ''Adsorbates/CO/NEB_Translation'',
           ''Adsorbates/CO/NEB_Rotation''),
      \<lparr>ext = \<lparr>fs = [(''Adsorbates'', Dir), (''Adsorbates/CO'', Dir),
                     (''Adsorbates/CO/Screening_Data'', Dir),
                     (''Adsorbates/CO/NEB_Translation'', Dir),
                     (''Adsorbates/CO/NEB_Rotation'', Dir)],
              stdout = [], stdout_fault = None, unencodable = [],
              other = ()\<rparr>,
       calls = []\<rparr>)"
  using workspace_setup_idempotent [THEN conjunct1, rule_format, OF setup_on_empty]
  by simp

section \<open>The dispatcher's result\<close>

text \<open>
  What the pool does is compared with \<open>run_in_order\<close>, the serial execution of the
  items in their order of completion: when the pool returns, it returns at every
  position the value that the run of the item of that position returned there.
\<close>

lemma pending_split:
  assumes "k < length P"
  shows "P = take k P @ P ! k # drop (Suc k) P"
  using assms by (simp add: id_take_nth_drop)

lemma completion_order_permutes:
  assumes "distinct (map fst P)"
  shows "set (completion_order n sched P) = set P \<and>
         distinct (map fst (completion_order n sched P))"
  using assms
proof (induction n sched P rule: completion_order.induct)
  case (1 n sched)
  then show ?case by simp
next
  case (2 n sched p ps)
  let ?P = "p # ps"
  define k where "k = (case sched of [] \<Rightarrow> 0 | c # _ \<Rightarrow> c) mod (min (max n 1) (length ?P))"
  let ?P' = "take k ?P @ drop (Suc k) ?P"
  have k: "k < length ?P"
    unfolding k_def using pick_in_range [of _ n "length ps"] by simp
  have split: "?P = take k ?P @ ?P ! k # drop (Suc k) ?P"
    using k by (rule pending_split)
  from "2.prems" have "distinct (map fst (take k ?P @ ?P ! k # drop (Suc k) ?P))"
    using split by simp
  then have d': "distinct (map fst ?P')" and fresh: "fst (?P ! k) \<notin> fst ` set ?P'"
    by auto
  have "set ?P = set (take k ?P @ ?P ! k # drop (Suc k) ?P)"
    using split by simp
  then have set: "set ?P = insert (?P ! k) (set ?P')"
    by (simp only: set_append set_simps) blast
  from "2.IH" [OF k_def d'] have ih: "set (completion_order n (tl sched) ?P') = set ?P'"
    "distinct (map fst (completion_order n (tl sched) ?P'))"
    by simp_all
  have unfold: "completion_order n sched ?P = ?P ! k # completion_order n (tl sched) ?P'"
    unfolding k_def by (simp add: Let_def)
  from ih fresh set show ?case
    unfolding unfold by auto
qed

lemma first_error_set: "first_error err e \<noteq> None"
  by (simp add: first_error_def split: option.splits)

lemma pool_collect_pending_error:
  "err \<noteq> None \<Longrightarrow> isl (fst (pool_collect worker pk order slots err s))"
proof (induction order arbitrary: slots err s)
  case Nil
  then show ?case by (auto split: option.splits)
next
  case (Cons p order)
  obtain i x where p: "p = (i, x)"
    by (cases p)
  show ?case
    using Cons.IH Cons.prems first_error_set
    by (auto simp: p split: prod.splits sum.splits)
qed

lemma pool_collect_serial:
  assumes "pool_collect worker pk order slots err s = (Inr out, s')"
    and "distinct (map fst order)"
    and "\<forall>e \<in> set order. fst e < length slots"
  shows "err = None \<and> length out = length slots \<and>
         (\<exists>log. run_in_order worker order s = (log, s') \<and> map fst log = map fst order \<and>
            (\<forall>(j, t, out1) \<in> set log. \<exists>r. out1 = Inr r \<and> pk r \<and> out ! j = Some r)) \<and>
         (\<forall>j < length slots. j \<notin> fst ` set order \<longrightarrow> out ! j = slots ! j)"
  using assms
proof (induction order arbitrary: slots err s)
  case Nil
  then show ?case
    by (auto split: option.splits)
next
  case (Cons p order)
  obtain i x where p: "p = (i, x)"
    by (cases p)
  obtain o1 s1 where w: "worker x s = (o1, s1)"
    by (cases "worker x s")
  from Cons.prems(1) have ok: "\<not> isl (fst (pool_collect worker pk (p # order) slots err s))"
    by simp
  have "\<exists>r. o1 = Inr r \<and> pk r"
  proof (rule ccontr)
    assume "\<not> (\<exists>r. o1 = Inr r \<and> pk r)"
    with w ok pool_collect_pending_error [OF first_error_set, of worker pk order slots] show False
      by (cases o1) (auto simp: p split: if_splits)
  qed
  then obtain r where r: "o1 = Inr r" "pk r"
    by blast
  with w Cons.prems(1) have rec: "pool_collect worker pk order (slots[i := Some r]) err s1 = (Inr out, s')"
    by (simp add: p)
  from Cons.prems(2) have d: "distinct (map fst order)" and fresh: "i \<notin> fst ` set order"
    by (auto simp: p)
  from Cons.prems(3) have b: "\<forall>e \<in> set order. fst e < length (slots[i := Some r])"
    and i: "i < length slots"
    by (auto simp: p)
  from Cons.IH [OF rec d b] obtain log where err: "err = None" and len: "length out = length slots"
    and log: "run_in_order worker order s1 = (log, s')" "map fst log = map fst order"
        "\<forall>(j, t, out1) \<in> set log. \<exists>r. out1 = Inr r \<and> pk r \<and> out ! j = Some r"
    and rest: "\<forall>j < length slots. j \<notin> fst ` set order \<longrightarrow> out ! j = slots[i := Some r] ! j"
    by auto
  from rest fresh i have here: "out ! i = Some r"
    by simp
  have run: "run_in_order worker (p # order) s = ((i, s, Inr r) # log, s')"
    using w r log(1) by (simp add: p)
  have "\<forall>(j, t, out1) \<in> set ((i, s, Inr r) # log). \<exists>r. out1 = Inr r \<and> pk r \<and> out ! j = Some r"
    using log(3) here r(2) by auto
  moreover have "map fst ((i, s, Inr r) # log) = map fst (p # order)"
    using log(2) by (simp add: p)
  moreover have "\<forall>j < length slots. j \<notin> fst ` set (p # order) \<longrightarrow> out ! j = slots ! j"
    using rest by (auto simp: p)
  ultimately show ?case
    using err len run by blast
qed

lemma run_in_order_entries:
  "run_in_order worker order s = (log, s') \<Longrightarrow>
     \<forall>(j, t, out1) \<in> set log. \<exists>x t'. (j, x) \<in> set order \<and> worker x t = (out1, t')"
proof (induction order arbitrary: s log s')
  case Nil
  then show ?case by simp
next
  case (Cons p order)
  obtain i x where p: "p = (i, x)"
    by (cases p)
  obtain o1 s1 where w: "worker x s = (o1, s1)"
    by (cases "worker x s")
  obtain log1 s2 where rec: "run_in_order worker order s1 = (log1, s2)"
    by (cases "run_in_order worker order s1")
  from Cons.prems w rec have log: "log = (i, s, o1) # log1"
    by (simp add: p)
  from Cons.IH [OF rec] w show ?case
    unfolding log p by fastforce
qed

lemma those_all_Some:
  "(\<forall>j < length out. \<exists>r. out ! j = Some r) \<Longrightarrow>
     \<exists>rl. those out = Some rl \<and> length rl = length out \<and> (\<forall>j < length out. out ! j = Some (rl ! j))"
proof (induction out)
  case Nil
  then show ?case by simp
next
  case (Cons o1 out)
  from Cons.prems have "\<exists>r. (o1 # out) ! 0 = Some r"
    by blast
  then obtain r where o1: "o1 = Some r"
    by auto
  from Cons.prems have "\<forall>j < length out. \<exists>r. out ! j = Some r"
    by fastforce
  from Cons.IH [OF this] obtain rl where rl: "those out = Some rl" "length rl = length out"
    "\<forall>j < length out. out ! j = Some (rl ! j)"
    by blast
  have "\<forall>j < length (o1 # out). (o1 # out) ! j = Some ((r # rl) ! j)"
  proof (intro allI impI)
    fix j assume "j < length (o1 # out)"
    with rl(3) o1 show "(o1 # out) ! j = Some ((r # rl) ! j)"
      by (cases j) simp_all
  qed
  with rl o1 show ?case
    by simp
qed

lemma in_callerE:
  assumes "in_caller m s = (Inr x, s')"
  shows "m s = (Inr x, s')"
  using assms by (auto simp: in_caller_def split: prod.splits sum.splits)

lemma dispatch_serial:
  assumes "run_adsorbate_list_parallel pipeline pk cpu_count sched items base_dir n_cores s
             = (Inr results, s')"
  shows "\<exists>s0 s1 log rl.
           os_makedirs base_dir True s = (Inr (), s0) \<and>
           print (running_line (length items)
                    (case n_cores of None \<Rightarrow> int cpu_count | Some n \<Rightarrow> n)) s0 = (Inr (), s1) \<and>
           run_in_order (\<lambda>ads_name. pipeline ads_name base_dir)
             (completion_order (nat (case n_cores of None \<Rightarrow> int cpu_count | Some n \<Rightarrow> n)) sched
                (enumerate 0 items)) s1 = (log, s') \<and>
           distinct (map fst log) \<and> fst ` set log = {..<length items} \<and>
           length rl = length items \<and>
           (\<forall>(j, t, out1) \<in> set log. out1 = Inr (rl ! j) \<and> pk (rl ! j) \<and>
              (\<exists>t'. pipeline (items ! j) base_dir t = (out1, t'))) \<and>
           results = dict_of_pairs rl"
proof -
  let ?n = "case n_cores of None \<Rightarrow> int cpu_count | Some n \<Rightarrow> n"
  let ?w = "\<lambda>ads_name. pipeline ads_name base_dir"
  let ?order = "completion_order (nat ?n) sched (enumerate 0 items)"
  from assms obtain u1 s0 u2 s1 out s2
    where mk: "in_caller (os_makedirs base_dir True) s = (Inr u1, s0)"
      and pr: "in_caller (print (running_line (length items) ?n)) s0 = (Inr u2, s1)"
      and pm: "pool_map ?n sched ?w pk items s1 = (Inr out, s2)"
      and ag: "in_caller (aggregate out) s2 = (Inr results, s')"
    unfolding run_adsorbate_list_parallel_def Let_def
    by (elim bind_progE) (auto simp: return_prog_def)
  from in_callerE [OF mk] have mk': "os_makedirs base_dir True s = (Inr (), s0)"
    by simp
  from in_callerE [OF pr] have pr': "print (running_line (length items) ?n) s0 = (Inr (), s1)"
    by simp
  from pm have pc: "pool_collect ?w pk ?order (replicate (length items) None) None s1 = (Inr out, s2)"
    by (auto simp: pool_map_def raise_prog_def split: if_splits)
  have dP: "distinct (map fst (enumerate 0 items))"
    by simp
  from completion_order_permutes [OF dP, of "nat ?n" sched]
  have oset: "set ?order = set (enumerate 0 items)" and od: "distinct (map fst ?order)"
    by simp_all
  have ob: "\<forall>e \<in> set ?order. fst e < length (replicate (length items) (None :: (string \<times> 'a) option))"
    unfolding oset by (auto simp: in_set_enumerate_eq)
  from pool_collect_serial [OF pc od ob] obtain log where len: "length out = length items"
    and log: "run_in_order ?w ?order s1 = (log, s2)" "map fst log = map fst ?order"
      "\<forall>(j, t, out1) \<in> set log. \<exists>r. out1 = Inr r \<and> pk r \<and> out ! j = Some r"
    by auto
  have idx: "fst ` set log = {..<length items}"
  proof -
    have "fst ` set log = set (map fst log)"
      by simp
    also have "\<dots> = fst ` set (enumerate 0 items)"
      unfolding log(2) using oset by simp
    also have "\<dots> = set (map fst (enumerate 0 items))"
      by (simp only: set_map)
    also have "\<dots> = {..<length items}"
      by (subst map_fst_enumerate) auto
    finally show ?thesis .
  qed
  have "\<forall>j < length out. \<exists>r. out ! j = Some r"
  proof (intro allI impI)
    fix j assume "j < length out"
    with len idx have "j \<in> fst ` set log"
      by simp
    then obtain t o1 where "(j, t, o1) \<in> set log"
      by force
    with log(3) show "\<exists>r. out ! j = Some r"
      by fastforce
  qed
  from those_all_Some [OF this] obtain rl where rl: "those out = Some rl"
    "length rl = length out" "\<forall>j < length out. out ! j = Some (rl ! j)"
    by blast
  from in_callerE [OF ag] rl(1) have res: "results = dict_of_pairs rl" and s2: "s' = s2"
    by (simp_all add: aggregate_def return_prog_def)
  have ent: "\<forall>(j, t, out1) \<in> set log. out1 = Inr (rl ! j) \<and> pk (rl ! j) \<and>
              (\<exists>t'. pipeline (items ! j) base_dir t = (out1, t'))"
  proof (clarify)
    fix j t o1 assume m: "(j, t, o1) \<in> set log"
    with log(3) obtain r where r: "o1 = Inr r" "pk r" "out ! j = Some r"
      by fastforce
    from m idx have j: "j < length items"
      by force
    with rl(3) len r(3) have "rl ! j = r"
      by simp
    moreover from run_in_order_entries [OF log(1)] m obtain x t'
      where "(j, x) \<in> set ?order" "pipeline x base_dir t = (o1, t')"
      by fastforce
    then have "pipeline (items ! j) base_dir t = (o1, t')"
      unfolding oset by (auto simp: in_set_enumerate_eq)
    ultimately show "o1 = Inr (rl ! j) \<and> pk (rl ! j) \<and>
                     (\<exists>t'. pipeline (items ! j) base_dir t = (o1, t'))"
      using r by auto
  qed
  have dl: "distinct (map fst log)"
    unfolding log(2) by (rule od)
  from mk' pr' log(1) dl idx rl(2) len ent res s2 show ?thesis
    by (intro exI [of _ s0] exI [of _ s1] exI [of _ log] exI [of _ rl]) simp
qed

lemma foldl_update_map_of:
  "map_of (foldl (\<lambda>d (ads, res). AList.update ads res d) d rl) = map_of (rev rl @ d)"
proof (induction rl arbitrary: d)
  case Nil
  then show ?case by simp
next
  case (Cons p rl)
  show ?case
    by (cases p) (simp add: Cons.IH map_of_append update_conv map_add_def fun_eq_iff
                       split: option.splits)
qed

lemma dict_of_pairs_lookup: "map_of (dict_of_pairs rl) = map_of (rev rl)"
  by (simp add: dict_of_pairs_def foldl_update_map_of)

lemma foldl_update_keys:
  "fst ` set (foldl (\<lambda>d (ads, res). AList.update ads res d) d rl) = fst ` set d \<union> fst ` set rl"
proof (induction rl arbitrary: d)
  case Nil
  then show ?case by simp
next
  case (Cons p rl)
  obtain k v where p: "p = (k, v)"
    by (cases p)
  have "fst ` set (AList.update k v d) = {k} \<union> fst ` set d"
    by (rule dom_update)
  then show ?case
    unfolding p by (simp add: Cons.IH)
qed

lemma foldl_update_distinct:
  "distinct (map fst d) \<Longrightarrow>
     distinct (map fst (foldl (\<lambda>d (ads, res). AList.update ads res d) d rl))"
  by (induction rl arbitrary: d) (auto simp: distinct_update split: prod.splits)



lemma last_occurrence_lookup:
  assumes "j < length rl" "\<forall>k. j < k \<and> k < length rl \<longrightarrow> fst (rl ! k) \<noteq> fst (rl ! j)"
  shows "map_of (rev rl) (fst (rl ! j)) = Some (snd (rl ! j))"
  using assms
proof (induction rl rule: rev_induct)
  case Nil
  then show ?case by simp
next
  case (snoc x xs)
  show ?case
  proof (cases "j = length xs")
    case True
    then show ?thesis by simp
  next
    case False
    with snoc.prems(1) have j: "j < length xs"
      by simp
    from snoc.prems(2) [rule_format, of "length xs"] j
    have ne: "fst x \<noteq> fst (xs ! j)"
      by (simp add: nth_append)
    have "\<forall>k. j < k \<and> k < length xs \<longrightarrow> fst (xs ! k) \<noteq> fst (xs ! j)"
    proof (intro allI impI)
      fix k assume k: "j < k \<and> k < length xs"
      with snoc.prems(2) [rule_format, of k] j show "fst (xs ! k) \<noteq> fst (xs ! j)"
        by (simp add: nth_append)
    qed
    from snoc.IH [OF j this] ne j show ?thesis
      by (cases x) (auto simp: nth_append)
  qed
qed

lemma executor_outcome:
  assumes "run_adsorbate_pipeline h a b s = (Inr v, s')"
  shows "\<exists>res. v = (a, res) \<and> ((\<exists>e t'. pipeline_body h a b s = (Inl e, t')) \<longrightarrow> res = None)"
  using assms
proof (cases rule: run_adsorbate_pipeline_cases)
  case (returned v')
  from body_faults [OF returned(1)] returned(2) show ?thesis
    by (cases v) (auto simp: returned(1))
qed auto




text \<open>
  Claim C5. Whenever the dispatcher returns a mapping, it is the dictionary built from
  the list \<open>results_list\<close> of the pairs that the runs of this batch returned, one for
  each position of the input list and in the order of the input list (the run of the
  item at position \<open>j\<close> returned \<open>results_list ! j\<close>); under a name that occurs
  several times the mapping holds the result of its last occurrence in the list. The
  mapping has one entry per distinct name, and building it prints nothing and raises
  nothing: the state is left as the pool left it.
\<close>

theorem duplicate_names_last_write_wins:
  assumes "run_adsorbate_list_parallel (run_adsorbate_pipeline h) picklable cpu_count sched
             adsorbate_list base_dir n_cores s = (Inr results, s')"
  shows "\<exists>s0 s1 log results_list.
           os_makedirs base_dir True s = (Inr (), s0) \<and>
           print (running_line (length adsorbate_list)
                    (case n_cores of None \<Rightarrow> int cpu_count | Some n \<Rightarrow> n)) s0 = (Inr (), s1) \<and>
           run_in_order (\<lambda>ads_name. run_adsorbate_pipeline h ads_name base_dir)
             (completion_order (nat (case n_cores of None \<Rightarrow> int cpu_count | Some n \<Rightarrow> n)) sched
                (enumerate 0 adsorbate_list)) s1 = (log, s') \<and>
           distinct (map fst log) \<and> fst ` set log = {..<length adsorbate_list} \<and>
           length results_list = length adsorbate_list \<and>
           map fst results_list = adsorbate_list \<and>
           (\<forall>(j, t, out) \<in> set log. out = Inr (results_list ! j)) \<and>
           results = dict_of_pairs results_list \<and>
           (\<forall>j < length adsorbate_list.
              (\<forall>k. j < k \<and> k < length adsorbate_list \<longrightarrow> adsorbate_list ! k \<noteq> adsorbate_list ! j) \<longrightarrow>
              map_of results (adsorbate_list ! j) = Some (snd (results_list ! j))) \<and>
           distinct (map fst results) \<and>
           fst ` set results = set adsorbate_list \<and>
           (\<forall>slots t r t'. aggregate slots (t :: ('a, 'b) state) = (r :: py_raise + (string \<times> 'a task_result) list, t') \<longrightarrow> t' = t)"
proof -
  let ?n = "case n_cores of None \<Rightarrow> int cpu_count | Some n \<Rightarrow> n"
  from dispatch_serial [OF assms] obtain s0 s1 log rl
    where mk: "os_makedirs base_dir True s = (Inr (), s0)"
      and pr: "print (running_line (length adsorbate_list) ?n) s0 = (Inr (), s1)"
      and run: "run_in_order (\<lambda>ads_name. run_adsorbate_pipeline h ads_name base_dir)
                  (completion_order (nat ?n) sched (enumerate 0 adsorbate_list)) s1 = (log, s')"
      and dl: "distinct (map fst log)"
      and idx: "fst ` set log = {..<length adsorbate_list}"
      and len: "length rl = length adsorbate_list"
      and ent: "\<forall>(j, t, out1) \<in> set log. out1 = Inr (rl ! j) \<and> picklable (rl ! j) \<and>
                  (\<exists>t'. run_adsorbate_pipeline h (adsorbate_list ! j) base_dir t = (out1, t'))"
      and res: "results = dict_of_pairs rl"
    by blast
  have nth: "fst (rl ! j) = adsorbate_list ! j" if "j < length adsorbate_list" for j
  proof -
    from that idx have "j \<in> fst ` set log"
      by simp
    then obtain t o1 where m: "(j, t, o1) \<in> set log"
      by force
    with ent obtain t' where "run_adsorbate_pipeline h (adsorbate_list ! j) base_dir t = (Inr (rl ! j), t')"
      by fastforce
    from executor_outcome [OF this] show ?thesis
      by auto
  qed
  have keys: "map fst rl = adsorbate_list"
    using len nth by (auto intro: nth_equalityI)
  have outs: "\<forall>(j, t, out) \<in> set log. out = Inr (rl ! j)"
    using ent by fastforce
  have last: "map_of results (adsorbate_list ! j) = Some (snd (rl ! j))"
    if j: "j < length adsorbate_list"
      and later: "\<forall>k. j < k \<and> k < length adsorbate_list \<longrightarrow> adsorbate_list ! k \<noteq> adsorbate_list ! j"
    for j
  proof -
    from j len have j': "j < length rl"
      by simp
    have "\<forall>k. j < k \<and> k < length rl \<longrightarrow> fst (rl ! k) \<noteq> fst (rl ! j)"
      using later nth j len by auto
    from last_occurrence_lookup [OF j' this] show ?thesis
      by (simp add: res dict_of_pairs_lookup nth [OF j])
  qed
  have dist: "distinct (map fst results)"
    unfolding res dict_of_pairs_def by (rule foldl_update_distinct) simp
  have dom: "fst ` set results = set adsorbate_list"
    unfolding res dict_of_pairs_def foldl_update_keys using keys by (metis empty_set image_empty sup_bot_left set_map)
  have quiet: "\<forall>slots t r t'. aggregate slots (t :: ('a, 'b) state) = (r :: py_raise + (string \<times> 'a task_result) list, t') \<longrightarrow> t' = t"
    by (auto simp: aggregate_def raise_prog_def return_prog_def split: option.splits)
  from mk pr run dl idx len keys outs res last dist dom quiet show ?thesis
    by blast
qed

lemma dispatch_duplicate:
  "fst (run_adsorbate_list_parallel (run_adsorbate_pipeline mock_neb_exclusive) all_picklable 4 []
          [''A'', ''A''] ''Adsorbates'' (Some 1) empty_state) = Inr [(''A'', None)]"
  by code_simp

lemma first_duplicate_succeeds:
  "fst (run_adsorbate_pipeline mock_neb_exclusive ''A'' ''Adsorbates'' empty_state) =
     Inr (''A'', Some [(''translation'', Opaque ''barrier translation''),
                      (''rotation'', Opaque ''barrier rotation'')])"
  by code_simp

theorem duplicate_names_last_write_wins_witness:
  "fst (run_adsorbate_pipeline mock_neb_exclusive ''A'' ''Adsorbates'' empty_state) =
     Inr (''A'', Some [(''translation'', Opaque ''barrier translation''),
                      (''rotation'', Opaque ''barrier rotation'')]) \<and>
   fst (run_adsorbate_list_parallel (run_adsorbate_pipeline mock_neb_exclusive) all_picklable 4 []
          [''A'', ''A''] ''Adsorbates'' (Some 1) empty_state) = Inr [(''A'', None)]"
proof -
  have run: "run_adsorbate_list_parallel (run_adsorbate_pipeline mock_neb_exclusive) all_picklable
          4 [] [''A'', ''A''] ''Adsorbates'' (Some 1) empty_state =
     (Inr [(''A'', None)],
      snd (run_adsorbate_list_parallel (run_adsorbate_pipeline mock_neb_exclusive) all_picklable
          4 [] [''A'', ''A''] ''Adsorbates'' (Some 1) empty_state))"
    using dispatch_duplicate by (simp add: prod_eq_iff)
  from duplicate_names_last_write_wins [OF run] show ?thesis
    by (simp (no_asm) add: first_duplicate_succeeds dispatch_duplicate)
qed

subsection \<open>The number of workers\<close>

lemma dispatch_outcome:
  "fst (run_adsorbate_list_parallel pipeline pk cpu_count sched items base_dir n_cores s) =
     (case os_makedirs base_dir True s of
        (Inl e, s0) \<Rightarrow> Inl (Raised e)
      | (Inr u, s0) \<Rightarrow>
          (case print (running_line (length items)
                         (case n_cores of None \<Rightarrow> int cpu_count | Some n \<Rightarrow> n)) s0 of
             (Inl e, s1) \<Rightarrow> Inl (Raised e)
           | (Inr u, s1) \<Rightarrow>
               (case fst (pool_map (case n_cores of None \<Rightarrow> int cpu_count | Some n \<Rightarrow> n) sched
                            (\<lambda>ads_name. pipeline ads_name base_dir) pk items s1) of
                  Inl f \<Rightarrow> Inl f
                | Inr out \<Rightarrow>
                    (case those out of
                       None \<Rightarrow> Inl (Raised (Exception ''cannot unpack non-iterable NoneType object''))
                     | Some rl \<Rightarrow> Inr (dict_of_pairs rl)))))"
proof -
  let ?n = "case n_cores of None \<Rightarrow> int cpu_count | Some n \<Rightarrow> n"
  obtain r0 s0 where mk: "os_makedirs base_dir True s = (r0, s0)"
    by (cases "os_makedirs base_dir True s")
  obtain r1 s1 where pr: "print (running_line (length items) ?n) s0 = (r1, s1)"
    by (cases "print (running_line (length items) ?n) s0")
  obtain r2 s2 where pm: "pool_map ?n sched (\<lambda>ads_name. pipeline ads_name base_dir) pk items s1
                            = (r2, s2)"
    by (cases "pool_map ?n sched (\<lambda>ads_name. pipeline ads_name base_dir) pk items s1")
  show ?thesis
    by (cases r0; cases r1; cases r2)
       (simp_all add: run_adsorbate_list_parallel_def Let_def bind_prog_def in_caller_def
          aggregate_def return_prog_def raise_prog_def mk pr pm split: option.splits)
qed

lemma digit_char_ascii: "of_char (digit_char d) < (128 :: nat)"
proof -
  have "\<forall>c \<in> set ''0123456789''. of_char c < (128 :: nat)"
    by simp
  moreover have "''0123456789'' ! (d mod 10) \<in> set ''0123456789''"
    by (rule nth_mem) simp
  ultimately show ?thesis
    unfolding digit_char_def by blast
qed

lemma str_nat_ascii: "\<forall>c \<in> set (str_nat n). of_char c < (128 :: nat)"
proof (induction n rule: str_nat.induct)
  case (1 n)
  then show ?case
    by (subst str_nat.simps) (auto simp: digit_char_ascii)
qed

lemma str_int_ascii: "\<forall>c \<in> set (str_int i). of_char c < (128 :: nat)"
  using str_nat_ascii by (auto simp: str_int_def)

lemma running_line_ascii: "\<forall>c \<in> set (running_line n m). of_char c < (128 :: nat)"
  using str_nat_ascii [of n] str_int_ascii [of m] by (auto simp: running_line_def)

lemma print_ascii:
  assumes "\<forall>c \<in> set line. of_char c < (128 :: nat)"
  shows "print line s =
           (case stdout_fault (ext s) of
              Some msg \<Rightarrow> (Inl (Exception msg), s)
            | None \<Rightarrow> (Inr (), s\<lparr>ext := (ext s)\<lparr>stdout := stdout (ext s) @ [line]\<rparr>\<rparr>))"
proof -
  from assms have "\<not> (\<exists>c \<in> set line. 128 \<le> (of_char c :: nat) \<and> c \<in> set (unencodable (ext s)))"
    by (auto simp: not_le)
  then show ?thesis
    unfolding print_def by (simp split: option.splits)
qed

lemma pool_collect_fails_iff:
  assumes "\<forall>e \<in> set order. \<forall>t t'. fst (worker (snd e) t) = fst (worker (snd e) t')"
  shows "isl (fst (pool_collect worker pk order slots err s)) \<longleftrightarrow>
         err \<noteq> None \<or> (\<exists>e \<in> set order. \<not> (\<exists>r. fst (worker (snd e) s) = Inr r \<and> pk r))"
  using assms
proof (induction order arbitrary: slots err s)
  case Nil
  then show ?case
    by (simp split: option.splits)
next
  case (Cons p order)
  obtain i x where p: "p = (i, x)"
    by (cases p)
  obtain o1 s1 where w: "worker x s = (o1, s1)"
    by (cases "worker x s")
  from Cons.prems
  have det: "\<forall>e \<in> set order. \<forall>t t'. fst (worker (snd e) t) = fst (worker (snd e) t')"
    by simp
  have move: "(\<exists>e \<in> set order. \<not> (\<exists>r. fst (worker (snd e) s1) = Inr r \<and> pk r)) \<longleftrightarrow>
              (\<exists>e \<in> set order. \<not> (\<exists>r. fst (worker (snd e) s) = Inr r \<and> pk r))"
    using det by metis
  show ?case
  proof (cases "\<exists>r. o1 = Inr r \<and> pk r")
    case True
    then obtain r where r: "o1 = Inr r" "pk r"
      by blast
    from Cons.IH [OF det, of "slots[i := Some r]" err s1] move w r show ?thesis
      by (simp add: p)
  next
    case False
    have "isl (fst (pool_collect worker pk (p # order) slots err s))"
      using w False pool_collect_pending_error [OF first_error_set, of worker pk order slots]
      by (cases o1) (auto simp: p)
    moreover from w False have "\<not> (\<exists>r. fst (worker (snd p) s) = Inr r \<and> pk r)"
      by (simp add: p)
    ultimately show ?thesis
      by auto
  qed
qed

lemma pool_map_slots:
  assumes "pool_map n sched worker pk items s = (Inr out, s')"
  shows "length out = length items \<and>
         (\<forall>j < length items. \<exists>t r t'. worker (items ! j) t = (Inr r, t') \<and> out ! j = Some r)"
proof -
  let ?order = "completion_order (nat n) sched (enumerate 0 items)"
  from assms have pc: "pool_collect worker pk ?order (replicate (length items) None) None s = (Inr out, s')"
    by (auto simp: pool_map_def raise_prog_def split: if_splits)
  have dP: "distinct (map fst (enumerate 0 items))"
    by simp
  from completion_order_permutes [OF dP, of "nat n" sched]
  have oset: "set ?order = set (enumerate 0 items)" and od: "distinct (map fst ?order)"
    by simp_all
  have ob: "\<forall>e \<in> set ?order. fst e < length items"
    unfolding oset by (auto simp: in_set_enumerate_eq)
  from pool_collect_serial [OF pc od, unfolded length_replicate, OF ob] obtain log where len: "length out = length items"
    and log: "run_in_order worker ?order s = (log, s')" "map fst log = map fst ?order"
      "\<forall>(j, t, out1) \<in> set log. \<exists>r. out1 = Inr r \<and> pk r \<and> out ! j = Some r"
    by auto
  have "\<exists>t r t'. worker (items ! j) t = (Inr r, t') \<and> out ! j = Some r"
    if j: "j < length items" for j
  proof -
    have "fst ` set log = set (map fst log)"
      by simp
    also have "\<dots> = fst ` set (enumerate 0 items)"
      unfolding log(2) using oset by simp
    also have "\<dots> = set (map fst (enumerate 0 items))"
      by (simp only: set_map)
    also have "\<dots> = {..<length items}"
      by (subst map_fst_enumerate) auto
    finally have "j \<in> fst ` set log"
      using j by simp
    then obtain t o1 where m: "(j, t, o1) \<in> set log"
      by force
    with log(3) obtain r where r: "o1 = Inr r" "out ! j = Some r"
      by fastforce
    from run_in_order_entries [OF log(1)] m obtain x t'
      where "(j, x) \<in> set ?order" "worker x t = (o1, t')"
      by fastforce
    then have "worker (items ! j) t = (o1, t')"
      unfolding oset by (auto simp: in_set_enumerate_eq)
    with r show ?thesis
      by blast
  qed
  with len show ?thesis
    by blast
qed

lemma pool_map_deterministic:
  assumes det: "\<forall>a \<in> set items. \<forall>t t'. fst (worker a t) = fst (worker a t')"
    and n1: "1 \<le> n1" and n2: "1 \<le> n2"
  shows "(isl (fst (pool_map n1 sched1 worker pk items s1)) \<and>
          isl (fst (pool_map n2 sched2 worker pk items s2))) \<or>
         (\<exists>out. fst (pool_map n1 sched1 worker pk items s1) = Inr out \<and>
                fst (pool_map n2 sched2 worker pk items s2) = Inr out)"
proof -
  let ?P = "enumerate 0 items"
  let ?O1 = "completion_order (nat n1) sched1 ?P"
  let ?O2 = "completion_order (nat n2) sched2 ?P"
  let ?A = "pool_map n1 sched1 worker pk items s1"
  let ?B = "pool_map n2 sched2 worker pk items s2"
  have A: "?A = pool_collect worker pk ?O1 (replicate (length items) None) None s1"
    using n1 by (simp add: pool_map_def)
  have B: "?B = pool_collect worker pk ?O2 (replicate (length items) None) None s2"
    using n2 by (simp add: pool_map_def)
  have dP: "distinct (map fst ?P)"
    by simp
  have o1: "set ?O1 = set ?P" and o2: "set ?O2 = set ?P"
    using completion_order_permutes [OF dP] by simp_all
  have detP: "\<forall>e \<in> set ?P. \<forall>t t'. fst (worker (snd e) t) = fst (worker (snd e) t')"
    using det by (auto simp: in_set_enumerate_eq)
  have "isl (fst ?A) \<longleftrightarrow> (\<exists>e \<in> set ?P. \<not> (\<exists>r. fst (worker (snd e) s1) = Inr r \<and> pk r))"
    unfolding A using pool_collect_fails_iff [of ?O1 worker pk _ None s1] detP
    unfolding o1 by simp
  also have "\<dots> \<longleftrightarrow> (\<exists>e \<in> set ?P. \<not> (\<exists>r. fst (worker (snd e) s2) = Inr r \<and> pk r))"
    using detP by metis
  also have "\<dots> \<longleftrightarrow> isl (fst ?B)"
    unfolding B using pool_collect_fails_iff [of ?O2 worker pk _ None s2] detP
    unfolding o2 by simp
  finally have same: "isl (fst ?A) \<longleftrightarrow> isl (fst ?B)" .
  show ?thesis
  proof (cases "isl (fst ?A)")
    case True
    with same show ?thesis by simp
  next
    case False
    with same obtain outA tA outB tB where a: "?A = (Inr outA, tA)" and b: "?B = (Inr outB, tB)"
      by (metis isl_def prod.collapse sum.collapse(2))
    from pool_map_slots [OF a] have lenA: "length outA = length items"
      and eachA: "\<forall>j < length items. \<exists>t r t'. worker (items ! j) t = (Inr r, t') \<and> outA ! j = Some r"
      by simp_all
    from pool_map_slots [OF b] have lenB: "length outB = length items"
      and eachB: "\<forall>j < length items. \<exists>t r t'. worker (items ! j) t = (Inr r, t') \<and> outB ! j = Some r"
      by simp_all
    have "outA = outB"
    proof (rule nth_equalityI)
      show "length outA = length outB"
        by (simp add: lenA lenB)
    next
      fix j assume "j < length outA"
      then have j: "j < length items"
        by (simp add: lenA)
      from eachA j obtain t r t' where ra: "worker (items ! j) t = (Inr r, t')" "outA ! j = Some r"
        by blast
      from eachB j obtain u q u' where rb: "worker (items ! j) u = (Inr q, u')" "outB ! j = Some q"
        by blast
      from j have "items ! j \<in> set items"
        by simp
      with det have "fst (worker (items ! j) t) = fst (worker (items ! j) u)"
        by blast
      with ra rb show "outA ! j = outB ! j"
        by simp
    qed
    with a b show ?thesis
      by simp
  qed
qed

text \<open>
  Claim C6. Let the per-item pipeline be deterministic: what it returns or raises for a
  name does not depend on the state it runs in. Then for a non-empty list, from the same
  initial state, the dispatcher with one worker and the dispatcher with as many workers
  as items, under any schedules, either both return no mapping or both return the
  same mapping.
\<close>

theorem worker_count_independence:
  assumes "adsorbate_list \<noteq> []"
    and "\<forall>a \<in> set adsorbate_list. \<forall>t t'.
           fst (pipeline a base_dir t) = fst (pipeline a base_dir t')"
  shows "(isl (fst (run_adsorbate_list_parallel pipeline picklable cpu_count sched_one
                      adsorbate_list base_dir (Some 1) s)) \<and>
          isl (fst (run_adsorbate_list_parallel pipeline picklable cpu_count sched_all
                      adsorbate_list base_dir (Some (int (length adsorbate_list))) s))) \<or>
         (\<exists>results.
            fst (run_adsorbate_list_parallel pipeline picklable cpu_count sched_one
                   adsorbate_list base_dir (Some 1) s) = Inr results \<and>
            fst (run_adsorbate_list_parallel pipeline picklable cpu_count sched_all
                   adsorbate_list base_dir (Some (int (length adsorbate_list))) s) = Inr results)"
proof -
  from assms(1) have n: "(1::int) \<le> 1" "1 \<le> int (length adsorbate_list)"
    by (simp_all add: Suc_leI)
  obtain r0 s0 where mk: "os_makedirs base_dir True s = (r0, s0)"
    by (cases "os_makedirs base_dir True s")
  let ?line = "\<lambda>n. running_line (length adsorbate_list) n"
  show ?thesis
  proof (cases r0)
    case (Inl e)
    with mk show ?thesis
      by (simp add: dispatch_outcome)
  next
    case (Inr u)
    show ?thesis
    proof (cases "stdout_fault (ext s0)")
      case (Some msg)
      then show ?thesis
        by (simp add: dispatch_outcome mk Inr print_ascii [OF running_line_ascii])
    next
      case None
      let ?w = "\<lambda>ads_name. pipeline ads_name base_dir"
      let ?t = "\<lambda>n. s0\<lparr>ext := (ext s0)\<lparr>stdout := stdout (ext s0) @ [?line n]\<rparr>\<rparr>"
      let ?A = "fst (pool_map 1 sched_one ?w picklable adsorbate_list (?t 1))"
      let ?B = "fst (pool_map (int (length adsorbate_list)) sched_all ?w picklable adsorbate_list
                       (?t (int (length adsorbate_list))))"
      have d1: "fst (run_adsorbate_list_parallel pipeline picklable cpu_count sched_one
                       adsorbate_list base_dir (Some 1) s) =
                (case ?A of Inl f \<Rightarrow> Inl f
                 | Inr out \<Rightarrow>
                     (case those out of
                        None \<Rightarrow> Inl (Raised (Exception ''cannot unpack non-iterable NoneType object''))
                      | Some rl \<Rightarrow> Inr (dict_of_pairs rl)))"
        by (simp add: dispatch_outcome mk Inr None print_ascii [OF running_line_ascii])
      have d2: "fst (run_adsorbate_list_parallel pipeline picklable cpu_count sched_all
                       adsorbate_list base_dir (Some (int (length adsorbate_list))) s) =
                (case ?B of Inl f \<Rightarrow> Inl f
                 | Inr out \<Rightarrow>
                     (case those out of
                        None \<Rightarrow> Inl (Raised (Exception ''cannot unpack non-iterable NoneType object''))
                      | Some rl \<Rightarrow> Inr (dict_of_pairs rl)))"
        by (simp add: dispatch_outcome mk Inr None print_ascii [OF running_line_ascii])
      from pool_map_deterministic [of adsorbate_list ?w, OF assms(2) n]
      have "(isl ?A \<and> isl ?B) \<or> (\<exists>out. ?A = Inr out \<and> ?B = Inr out)" .
      then show ?thesis
      proof
        assume "isl ?A \<and> isl ?B"
        then show ?thesis
          unfolding d1 d2 by (auto simp: isl_def)
      next
        assume "\<exists>out. ?A = Inr out \<and> ?B = Inr out"
        then obtain out where "?A = Inr out" "?B = Inr out"
          by blast
        then show ?thesis
          unfolding d1 d2 by (cases "those out") simp_all
      qed
    qed
  qed
qed

lemma mock_dispatch_one_worker:
  "fst (run_adsorbate_list_parallel mock_pipeline all_picklable 4 [] [''X1'', ''X2'']
          ''Adsorbates'' (Some 1) empty_state) =
   Inr [(''X1'', Some [(''translation'', Opaque ''okT''), (''rotation'', Opaque ''okR'')]),
        (''X2'', None)]"
  by code_simp

lemma mock_dispatch_two_workers:
  "fst (run_adsorbate_list_parallel mock_pipeline all_picklable 4 [1, 0] [''X1'', ''X2'']
          ''Adsorbates'' (Some 2) empty_state) =
   Inr [(''X1'', Some [(''translation'', Opaque ''okT''), (''rotation'', Opaque ''okR'')]),
        (''X2'', None)]"
  by code_simp

theorem worker_count_independence_witness:
  "fst (run_adsorbate_list_parallel mock_pipeline all_picklable 4 [] [''X1'', ''X2'']
          ''Adsorbates'' (Some 1) empty_state) =
     Inr [(''X1'', Some [(''translation'', Opaque ''okT''), (''rotation'', Opaque ''okR'')]),
          (''X2'', None)] \<and>
   fst (run_adsorbate_list_parallel mock_pipeline all_picklable 4 [1, 0] [''X1'', ''X2'']
          ''Adsorbates'' (Some 2) empty_state) =
     Inr [(''X1'', Some [(''translation'', Opaque ''okT''), (''rotation'', Opaque ''okR'')]),
          (''X2'', None)]"
proof -
  have ne: "[''X1'', ''X2''] \<noteq> []"
    by simp
  have det: "\<forall>a \<in> set [''X1'', ''X2'']. \<forall>t t'.
           fst (mock_pipeline a ''Adsorbates'' t) = fst (mock_pipeline a ''Adsorbates'' t')"
    by (simp add: mock_pipeline_def return_prog_def)
  from worker_count_independence
         [where adsorbate_list = "[''X1'', ''X2'']" and pipeline = mock_pipeline
            and picklable = all_picklable
            and base_dir = "''Adsorbates''" and cpu_count = 4 and sched_one = "[]"
            and sched_all = "[1, 0]" and s = empty_state, OF ne det]
    mock_dispatch_one_worker mock_dispatch_two_workers
  show ?thesis
    by simp
qed

end
